theory Spec2Isabelle
  imports Complex_Main
begin

section \<open>The FPS room relay: values, state and transport\<close>

text \<open>
  This theory embeds \<^verbatim>\<open>app/api/v1/games/fps/websocket.py\<close>: the class
  \<^verbatim>\<open>FPSConnectionManager\<close> and the message loop of \<^verbatim>\<open>fps_websocket_endpoint\<close>.

  Conventions of the embedding.
  \<^item> A decoded JSON document is a value of \<open>json\<close>. Python dictionaries inside a document
    are association lists read with \<open>map_of\<close> (keys of a decoded dictionary are unique).
    A JSON number decodes to a Python \<^verbatim>\<open>int\<close> or \<^verbatim>\<open>float\<close>. The code does no arithmetic:
    of a float it uses its truth value, its type name and its identity as a dictionary
    key, and hands it on. \<open>pyfloat\<close> keeps what these need.
  \<^item> A \<^verbatim>\<open>WebSocket\<close> object is a handle of type \<open>ws\<close>. What the network does with a
    handle is a parameter of type \<open>transport\<close>: \<open>net w = Some txt\<close> says that
    \<^verbatim>\<open>send_json\<close>/\<^verbatim>\<open>accept\<close> on \<open>w\<close> raises an exception whose \<^verbatim>\<open>str()\<close> is \<open>txt\<close>,
    \<open>net w = None\<close> that the frame goes out. Frames that went out are appended to the
    field \<open>wire\<close> of the state.
  \<^item> A Python \<^verbatim>\<open>set\<close> of connection ids is a list without the operations ever producing
    a duplicate; the order of the list is the order in which the \<^verbatim>\<open>for\<close> loop visits the
    set, which Python leaves open. The theorems about all states hold for every order;
    an example fixes one.
  \<^item> Other tasks run while a task is suspended in an \<^verbatim>\<open>await\<close>. The loop of
    \<^verbatim>\<open>broadcast_to_room\<close> awaits \<^verbatim>\<open>send_json\<close> while it iterates over the room's
    set, the very object that the other tasks' \<^verbatim>\<open>join_room\<close>, \<^verbatim>\<open>leave_room\<close> and
    \<^verbatim>\<open>disconnect\<close> change. The field \<open>meanwhile\<close> of the state holds, for each coming
    suspension of such a loop, the changes the other tasks make during it. Elsewhere the
    code keeps no iterator over shared state across an \<^verbatim>\<open>await\<close> (only values it has
    copied into local variables): there a turn of a message loop is taken as one step,
    and what other tasks do is the turn of another event.
\<close>

text \<open>
  A Python float: a finite value (every IEEE double is a rational), negative zero, the
  infinities, and NaN. A NaN is equal to nothing, itself included, and a dictionary
  finds it only as the same object; the number names the object.
\<close>

datatype pyfloat = Finite rat | NegZero | PlusInf | MinusInf | NaN nat

datatype json =
    JNull
  | JBool bool
  | JInt int
  | JFloat pyfloat
  | JStr string
  | JArr "json list"
  | JObj "(string \<times> json) list"

text \<open>Python truthiness, as used by \<^verbatim>\<open>if room_id and player_id\<close>.\<close>

fun truthy :: "json \<Rightarrow> bool" where
  "truthy JNull = False"
| "truthy (JBool b) = b"
| "truthy (JInt n) = (n \<noteq> 0)"
| "truthy (JFloat f) = (f \<noteq> Finite 0 \<and> f \<noteq> NegZero)"
| "truthy (JStr s) = (s \<noteq> [])"
| "truthy (JArr xs) = (xs \<noteq> [])"
| "truthy (JObj kvs) = (kvs \<noteq> [])"

text \<open>\<^verbatim>\<open>d.get(name)\<close>: the value stored under \<open>name\<close>, or \<^verbatim>\<open>None\<close>.\<close>

definition dict_get :: "(string \<times> json) list \<Rightarrow> string \<Rightarrow> json" where
  "dict_get items name = (case map_of items name of None \<Rightarrow> JNull | Some v \<Rightarrow> v)"

text \<open>
  Keys of the dictionary \<^verbatim>\<open>rooms\<close>. Python hashes \<^verbatim>\<open>True\<close>, \<^verbatim>\<open>1\<close> and \<^verbatim>\<open>1.0\<close>
  (and \<^verbatim>\<open>False\<close>, \<^verbatim>\<open>0\<close>, \<^verbatim>\<open>0.0\<close> and \<^verbatim>\<open>-0.0\<close>) to the same key: a number is
  the key of the integer it is equal to, if there is one. Lists and dictionaries are
  unhashable and make every dictionary lookup raise \<^verbatim>\<open>TypeError\<close>.
\<close>

datatype key = KNone | KInt int | KFloat pyfloat | KStr string

fun float_key :: "pyfloat \<Rightarrow> key" where
  "float_key (Finite q) = (if of_int \<lfloor>q\<rfloor> = q then KInt \<lfloor>q\<rfloor> else KFloat (Finite q))"
| "float_key NegZero = KInt 0"
| "float_key f = KFloat f"

fun key_of :: "json \<Rightarrow> key option" where
  "key_of JNull = Some KNone"
| "key_of (JBool b) = Some (KInt (if b then 1 else 0))"
| "key_of (JInt n) = Some (KInt n)"
| "key_of (JFloat f) = Some (float_key f)"
| "key_of (JStr s) = Some (KStr s)"
| "key_of (JArr xs) = None"
| "key_of (JObj kvs) = None"

text \<open>
  Exceptions: \<^verbatim>\<open>json.JSONDecodeError\<close>, which the endpoint catches by name, and any other
  \<^verbatim>\<open>Exception\<close> with its \<^verbatim>\<open>str()\<close>.
\<close>

datatype exn = JSONDecodeError | Raised string

text \<open>The name of a value's Python type, between single quotes as CPython prints it.\<close>

fun type_name :: "json \<Rightarrow> string" where
  "type_name JNull = ''NoneType''"
| "type_name (JBool b) = ''bool''"
| "type_name (JInt n) = ''int''"
| "type_name (JFloat f) = ''float''"
| "type_name (JStr s) = ''str''"
| "type_name (JArr xs) = ''list''"
| "type_name (JObj kvs) = ''dict''"

definition quoted :: "string \<Rightarrow> string" where
  "quoted s = CHR 0x27 # s @ [CHR 0x27]"

text \<open>The \<^verbatim>\<open>TypeError\<close> of a dictionary lookup with an unhashable key.\<close>

definition unhashable :: "json \<Rightarrow> exn" where
  "unhashable v = Raised (''unhashable type: '' @ quoted (type_name v))"

text \<open>The \<^verbatim>\<open>AttributeError\<close> of \<^verbatim>\<open>message.get\<close> on a value that is not a dictionary.\<close>

definition no_get :: "json \<Rightarrow> exn" where
  "no_get v = Raised (quoted (type_name v) @ '' object has no attribute '' @ quoted ''get'')"

type_synonym ws = nat

type_synonym transport = "ws \<Rightarrow> string option"

text \<open>
  What another task does to the manager's dictionaries in one go, between two of its own
  \<^verbatim>\<open>await\<close>s: the \<^verbatim>\<open>join_room\<close> branch up to its first \<^verbatim>\<open>await\<close> (\<^verbatim>\<open>join_room\<close> and the
  player record), the call of \<^verbatim>\<open>leave_room\<close> in the \<^verbatim>\<open>leave_room\<close> branch, and
  \<^verbatim>\<open>disconnect\<close> (at the end of an endpoint, or in the cleanup of a broadcast). A task
  registers its connection only at its start, under a fresh id that is in no room; that
  is the event \<open>Open\<close> below and not among the changes during a suspension.
\<close>

datatype action = Joins string json json | Leaves string json | Drops string

record world =
  active_connections :: "string \<rightharpoonup> ws"
  connection_players :: "string \<rightharpoonup> json"
  rooms :: "key \<rightharpoonup> string list"
  wire :: "(ws \<times> json) list"
  meanwhile :: "action list list"

definition initial :: world where
  "initial = \<lparr>active_connections = Map.empty, connection_players = Map.empty,
              rooms = Map.empty, wire = [], meanwhile = []\<rparr>"

definition all_live :: transport where
  "all_live w = None"

text \<open>\<^verbatim>\<open>set.add\<close> and \<^verbatim>\<open>set.discard\<close> on the list that stands for a set.\<close>

definition set_add :: "string \<Rightarrow> string list \<Rightarrow> string list" where
  "set_add c members = (if c \<in> set members then members else members @ [c])"

definition set_discard :: "string \<Rightarrow> string list \<Rightarrow> string list" where
  "set_discard c members = removeAll c members"

definition send_json :: "transport \<Rightarrow> ws \<Rightarrow> json \<Rightarrow> world \<Rightarrow> exn + world" where
  "send_json net websocket message s =
     (case net websocket of
        Some txt \<Rightarrow> Inl (Raised txt)
      | None \<Rightarrow> Inr (s\<lparr>wire := wire s @ [(websocket, message)]\<rparr>))"

section \<open>FPSConnectionManager\<close>

definition connect :: "transport \<Rightarrow> world \<Rightarrow> ws \<Rightarrow> string \<Rightarrow> exn + world" where
  "connect net s websocket connection_id =
     (case net websocket of
        Some txt \<Rightarrow> Inl (Raised txt)
      | None \<Rightarrow> Inr (s\<lparr>active_connections := (active_connections s)(connection_id \<mapsto> websocket)\<rparr>))"

definition disconnect :: "world \<Rightarrow> string \<Rightarrow> world" where
  "disconnect s connection_id =
     (let s1 = (if active_connections s connection_id \<noteq> None
                then s\<lparr>active_connections := (active_connections s)(connection_id := None)\<rparr>
                else s)
      in if connection_players s1 connection_id \<noteq> None
         then s1\<lparr>connection_players := (connection_players s1)(connection_id := None),
                 rooms := (\<lambda>room_id. map_option (set_discard connection_id) (rooms s1 room_id))\<rparr>
         else s1)"

definition send_personal_message :: "transport \<Rightarrow> world \<Rightarrow> json \<Rightarrow> string \<Rightarrow> world" where
  "send_personal_message net s message connection_id =
     (case active_connections s connection_id of
        None \<Rightarrow> s
      | Some websocket \<Rightarrow>
          (case send_json net websocket message s of
             Inr s' \<Rightarrow> s'
           | Inl e \<Rightarrow> disconnect s connection_id))"

definition join_room :: "world \<Rightarrow> string \<Rightarrow> json \<Rightarrow> exn + world" where
  "join_room s connection_id room_id =
     (case key_of room_id of
        None \<Rightarrow> Inl (unhashable room_id)
      | Some k \<Rightarrow>
          (let members = (case rooms s k of None \<Rightarrow> [] | Some members \<Rightarrow> members)
           in Inr (s\<lparr>rooms := (rooms s)(k \<mapsto> set_add connection_id members)\<rparr>)))"

definition leave_room :: "world \<Rightarrow> string \<Rightarrow> json \<Rightarrow> exn + world" where
  "leave_room s connection_id room_id =
     (case key_of room_id of
        None \<Rightarrow> Inl (unhashable room_id)
      | Some k \<Rightarrow>
          (case rooms s k of
             None \<Rightarrow> Inr s
           | Some members \<Rightarrow> Inr (s\<lparr>rooms := (rooms s)(k \<mapsto> set_discard connection_id members)\<rparr>)))"

text \<open>
  The other tasks' changes, as the running task finds them when it resumes.
\<close>

fun act :: "world \<Rightarrow> action \<Rightarrow> world" where
  "act s (Joins connection_id room_id player_id) =
     (if truthy room_id \<and> truthy player_id
      then (case join_room s connection_id room_id of
              Inl e \<Rightarrow> s
            | Inr s1 \<Rightarrow> s1\<lparr>connection_players :=
                               (connection_players s1)(connection_id \<mapsto> player_id)\<rparr>)
      else s)"
| "act s (Leaves connection_id room_id) =
     (if truthy room_id
      then (case leave_room s connection_id room_id of Inl e \<Rightarrow> s | Inr s1 \<Rightarrow> s1)
      else s)"
| "act s (Drops connection_id) = disconnect s connection_id"

definition suspended :: "world \<Rightarrow> world" where
  "suspended s =
     (case meanwhile s of
        [] \<Rightarrow> s
      | acts # later \<Rightarrow> fold (\<lambda>a t. act t a) acts (s\<lparr>meanwhile := later\<rparr>))"

text \<open>
  The \<^verbatim>\<open>for\<close> loop of \<^verbatim>\<open>broadcast_to_room\<close>. The iterator is made once, over the set
  object stored under the key \<open>k\<close> (the object is never replaced), and remembers the
  size \<open>n\<close> the set has then. Every step of the iterator, the last one that ends the loop
  included, first compares the size of the set with \<open>n\<close> and raises \<^verbatim>\<open>RuntimeError\<close> when
  they differ; the \<^verbatim>\<open>try\<close> inside the loop wraps the send only, so this exception leaves
  the loop and \<^verbatim>\<open>broadcast_to_room\<close>, and the cleanup after the loop does not run. After
  each awaited send the task resumes in the state \<open>suspended\<close> gives. Which members a loop
  still visits when the set was changed without a change of size, Python leaves open:
  here it visits the list as it is now, by position.
\<close>

definition members_of :: "world \<Rightarrow> key \<Rightarrow> string list" where
  "members_of s k = (case rooms s k of None \<Rightarrow> [] | Some members \<Rightarrow> members)"

definition set_changed :: exn where
  "set_changed = Raised ''Set changed size during iteration''"

fun broadcast_loop ::
  "transport \<Rightarrow> json \<Rightarrow> string option \<Rightarrow> key \<Rightarrow> nat \<Rightarrow> nat list \<Rightarrow> world \<times> string list
     \<Rightarrow> (exn \<times> world) + (world \<times> string list)"
where
  "broadcast_loop net message exclude k n [] (s, disconnected) =
     (if length (members_of s k) \<noteq> n then Inl (set_changed, s) else Inr (s, disconnected))"
| "broadcast_loop net message exclude k n (i # positions) (s, disconnected) =
     (if length (members_of s k) \<noteq> n then Inl (set_changed, s)
      else let connection_id = members_of s k ! i in
        if Some connection_id = exclude
        then broadcast_loop net message exclude k n positions (s, disconnected)
        else case active_connections s connection_id of
               None \<Rightarrow> broadcast_loop net message exclude k n positions (s, disconnected)
             | Some websocket \<Rightarrow>
                 (case send_json net websocket message s of
                    Inr s' \<Rightarrow>
                      broadcast_loop net message exclude k n positions
                        (suspended s', disconnected)
                  | Inl e \<Rightarrow>
                      broadcast_loop net message exclude k n positions
                        (suspended s, disconnected @ [connection_id])))"

definition broadcast_to_room ::
  "transport \<Rightarrow> world \<Rightarrow> json \<Rightarrow> json \<Rightarrow> string option \<Rightarrow> (exn \<times> world) + world"
where
  "broadcast_to_room net s message room_id exclude =
     (case key_of room_id of
        None \<Rightarrow> Inl (unhashable room_id, s)
      | Some k \<Rightarrow>
          (case rooms s k of
             None \<Rightarrow> Inr s
           | Some members \<Rightarrow>
               (case broadcast_loop net message exclude k (length members)
                       [0..<length members] (s, []) of
                  Inl raised \<Rightarrow> Inl raised
                | Inr (s', disconnected) \<Rightarrow>
                    Inr (fold (\<lambda>connection_id t. disconnect t connection_id) disconnected s'))))"

section \<open>fps_websocket_endpoint\<close>

text \<open>
  A statement of the endpoint either finishes in a new state or raises; the state in which
  it raised is kept, because the handlers go on from it. \<^verbatim>\<open>join_room\<close>, \<^verbatim>\<open>leave_room\<close>
  and \<^verbatim>\<open>send_json\<close> raise before they change anything, so \<open>raise_at\<close> pairs their
  exception with the state they were called in; \<^verbatim>\<open>broadcast_to_room\<close> gives the state
  itself.
\<close>

type_synonym result = "(exn \<times> world) + world"

definition raise_at :: "world \<Rightarrow> exn + world \<Rightarrow> result" where
  "raise_at s r = (case r of Inl e \<Rightarrow> Inl (e, s) | Inr s' \<Rightarrow> Inr s')"

definition and_then :: "result \<Rightarrow> (world \<Rightarrow> result) \<Rightarrow> result" where
  "and_then r f = (case r of Inl x \<Rightarrow> Inl x | Inr s \<Rightarrow> f s)"

text \<open>
  The body of the inner \<^verbatim>\<open>try\<close> after \<^verbatim>\<open>json.loads\<close> has returned \<open>message\<close>,
  one definition for each branch of the \<^verbatim>\<open>if\<close>/\<^verbatim>\<open>elif\<close> chain and \<open>dispatch\<close>
  for the chain. \<open>items\<close> are the entries of the dictionary \<open>message\<close>.
\<close>

definition on_join_room ::
  "transport \<Rightarrow> world \<Rightarrow> ws \<Rightarrow> string \<Rightarrow> (string \<times> json) list \<Rightarrow> result"
where
  "on_join_room net s websocket connection_id items =
     (let room_id = dict_get items ''roomId'';
          player_id = dict_get items ''playerId''
      in if truthy room_id \<and> truthy player_id then
           and_then (raise_at s (join_room s connection_id room_id)) (\<lambda>s1.
           let s2 = s1\<lparr>connection_players :=
                         (connection_players s1)(connection_id \<mapsto> player_id)\<rparr>
           in and_then
                (raise_at s2 (send_json net websocket
                   (JObj [(''type'', JStr ''room_joined''), (''roomId'', room_id)]) s2))
                (\<lambda>s3. broadcast_to_room net s3
                   (JObj [(''type'', JStr ''player_joined''), (''playerId'', player_id),
                          (''roomId'', room_id)])
                   room_id (Some connection_id)))
         else Inr s)"

definition on_leave_room ::
  "transport \<Rightarrow> world \<Rightarrow> ws \<Rightarrow> string \<Rightarrow> (string \<times> json) list \<Rightarrow> result"
where
  "on_leave_room net s websocket connection_id items =
     (let room_id = dict_get items ''roomId'';
          player_id = (case connection_players s connection_id of
                         None \<Rightarrow> JNull | Some p \<Rightarrow> p)
      in if truthy room_id then
           and_then (raise_at s (leave_room s connection_id room_id)) (\<lambda>s1.
           and_then
             (raise_at s1 (send_json net websocket
                (JObj [(''type'', JStr ''room_left''), (''roomId'', room_id)]) s1))
             (\<lambda>s2. if truthy player_id
                    then broadcast_to_room net s2
                           (JObj [(''type'', JStr ''player_left''), (''playerId'', player_id),
                                  (''roomId'', room_id)])
                           room_id (Some connection_id)
                    else Inr s2))
         else Inr s)"

definition on_game_state ::
  "transport \<Rightarrow> world \<Rightarrow> string \<Rightarrow> (string \<times> json) list \<Rightarrow> result"
where
  "on_game_state net s connection_id items =
     (let room_id = dict_get items ''roomId''
      in if truthy room_id
         then broadcast_to_room net s (JObj items) room_id (Some connection_id)
         else Inr s)"

definition on_ping :: "transport \<Rightarrow> world \<Rightarrow> ws \<Rightarrow> result" where
  "on_ping net s websocket =
     raise_at s (send_json net websocket (JObj [(''type'', JStr ''pong'')]) s)"

definition dispatch :: "transport \<Rightarrow> world \<Rightarrow> ws \<Rightarrow> string \<Rightarrow> json \<Rightarrow> result" where
  "dispatch net s websocket connection_id message =
     (case message of
        JObj items \<Rightarrow>
          (let message_type = dict_get items ''type'' in
           if message_type = JStr ''join_room'' then
             on_join_room net s websocket connection_id items
           else if message_type = JStr ''leave_room'' then
             on_leave_room net s websocket connection_id items
           else if message_type = JStr ''game_state'' then
             on_game_state net s connection_id items
           else if message_type = JStr ''ping'' then
             on_ping net s websocket
           else Inr s)
      | _ \<Rightarrow> Inl (no_get message, s))"

text \<open>The two \<^verbatim>\<open>except\<close> clauses of the inner \<^verbatim>\<open>try\<close> differ in the text they report.\<close>

definition error_reply :: "exn \<Rightarrow> json" where
  "error_reply e =
     JObj [(''type'', JStr ''error''),
           (''message'', JStr (case e of JSONDecodeError \<Rightarrow> ''Invalid JSON format''
                                       | Raised txt \<Rightarrow> txt))]"

text \<open>
  One turn of \<^verbatim>\<open>while True\<close> once \<^verbatim>\<open>receive_text\<close> has returned: \<open>decoded\<close> is what
  \<^verbatim>\<open>json.loads(data)\<close> does, a value or an exception. An exception of the inner
  handlers' own \<^verbatim>\<open>send_json\<close> leaves the loop, and the outer handlers call
  \<^verbatim>\<open>disconnect\<close>.
\<close>

datatype outcome = Continue world | Closed world

definition on_text :: "transport \<Rightarrow> world \<Rightarrow> ws \<Rightarrow> string \<Rightarrow> exn + json \<Rightarrow> outcome" where
  "on_text net s websocket connection_id decoded =
     (case (case decoded of
              Inl e \<Rightarrow> Inl (e, s)
            | Inr message \<Rightarrow> dispatch net s websocket connection_id message) of
        Inr s' \<Rightarrow> Continue s'
      | Inl (e, s') \<Rightarrow>
          (case send_json net websocket (error_reply e) s' of
             Inr s'' \<Rightarrow> Continue s''
           | Inl e' \<Rightarrow> Closed (disconnect s' connection_id)))"

text \<open>What \<^verbatim>\<open>receive_text\<close> does: it returns a text frame, or it raises.\<close>

datatype frame = Text "exn + json" | Gone

text \<open>
  The loop of one connection over the frames it receives, each with the transport of its
  moment. \<open>Continue\<close> at the end of the list: the loop is waiting for the next frame.
\<close>

fun message_loop :: "world \<Rightarrow> ws \<Rightarrow> string \<Rightarrow> (transport \<times> frame) list \<Rightarrow> outcome" where
  "message_loop s websocket connection_id [] = Continue s"
| "message_loop s websocket connection_id ((net, Gone) # rest) =
     Closed (disconnect s connection_id)"
| "message_loop s websocket connection_id ((net, Text decoded) # rest) =
     (case on_text net s websocket connection_id decoded of
        Continue s' \<Rightarrow> message_loop s' websocket connection_id rest
      | Closed s' \<Rightarrow> Closed s')"

text \<open>
  The start of the endpoint. \<^verbatim>\<open>connect\<close> is called before the outer \<^verbatim>\<open>try\<close>: an
  exception of \<^verbatim>\<open>accept\<close> escapes without cleanup.
\<close>

definition greeting :: "string \<Rightarrow> json" where
  "greeting connection_id =
     JObj [(''type'', JStr ''connected''), (''connectionId'', JStr connection_id),
           (''game'', JStr ''fps''), (''message'', JStr ''Connected to FPS Game WebSocket'')]"

definition open_endpoint :: "transport \<Rightarrow> world \<Rightarrow> ws \<Rightarrow> string \<Rightarrow> outcome" where
  "open_endpoint net s websocket connection_id =
     (case connect net s websocket connection_id of
        Inl e \<Rightarrow> Closed s
      | Inr s1 \<Rightarrow>
          (case send_json net websocket (greeting connection_id) s1 of
             Inl e \<Rightarrow> Closed (disconnect s1 connection_id)
           | Inr s2 \<Rightarrow> Continue s2))"

text \<open>
  The endpoint for one connection: \<open>connection_id\<close> is the fresh
  \<^verbatim>\<open>str(uuid.uuid4())\<close>, \<open>inbound\<close> what \<^verbatim>\<open>receive_text\<close> does from turn to turn.
\<close>

definition fps_websocket_endpoint ::
  "transport \<Rightarrow> world \<Rightarrow> ws \<Rightarrow> string \<Rightarrow> (transport \<times> frame) list \<Rightarrow> outcome"
where
  "fps_websocket_endpoint net s websocket connection_id inbound =
     (case open_endpoint net s websocket connection_id of
        Continue s' \<Rightarrow> message_loop s' websocket connection_id inbound
      | Closed s' \<Rightarrow> Closed s')"

text \<open>
  The whole server: the turns of all connections, one after the other, in any order. An
  event names the connection whose task takes the turn, or (\<open>Others\<close>) says what the other
  tasks are going to do during the suspensions of the broadcast loops to come. Turns of
  a task that has ended are not excluded, so \<open>run\<close> reaches every state the server
  reaches (and more).
\<close>

datatype event = Open ws string | Turn ws string frame | Others "action list list"

fun state_of :: "outcome \<Rightarrow> world" where
  "state_of (Continue s) = s"
| "state_of (Closed s) = s"

fun turn :: "transport \<Rightarrow> world \<Rightarrow> event \<Rightarrow> world" where
  "turn net s (Open websocket connection_id) = state_of (open_endpoint net s websocket connection_id)"
| "turn net s (Turn websocket connection_id Gone) = disconnect s connection_id"
| "turn net s (Turn websocket connection_id (Text decoded)) =
     state_of (on_text net s websocket connection_id decoded)"
| "turn net s (Others plan) = s\<lparr>meanwhile := plan\<rparr>"

fun run :: "world \<Rightarrow> (transport \<times> event) list \<Rightarrow> world" where
  "run s [] = s"
| "run s ((net, ev) # rest) = run (turn net s ev) rest"

text \<open>The frames a step put on the wire.\<close>

definition emitted :: "world \<Rightarrow> world \<Rightarrow> (ws \<times> json) list" where
  "emitted s s' = drop (length (wire s)) (wire s')"

section \<open>Derived notions\<close>

text \<open>
  \<open>in_room s c k\<close>: connection \<open>c\<close> is in the member set stored under the key \<open>k\<close>.
\<close>

definition in_room :: "world \<Rightarrow> string \<Rightarrow> key \<Rightarrow> bool" where
  "in_room s c k = (case rooms s k of None \<Rightarrow> False | Some members \<Rightarrow> c \<in> set members)"

text \<open>
  The loop of \<^verbatim>\<open>broadcast_to_room\<close> in closed form, when no other task changes the
  state while it is suspended: the frames it puts on the wire and the list
  \<^verbatim>\<open>disconnected\<close> it collects (lemma \<open>broadcast_loop_quiet\<close>), and the cleanup loop.
\<close>

definition frames :: "transport \<Rightarrow> (string \<rightharpoonup> ws) \<Rightarrow> json \<Rightarrow> string option \<Rightarrow> string list \<Rightarrow> (ws \<times> json) list" where
  "frames net active message exclude members =
     concat (map (\<lambda>c. if Some c = exclude then []
                       else case active c of
                              None \<Rightarrow> []
                            | Some w \<Rightarrow> (case net w of None \<Rightarrow> [(w, message)] | Some txt \<Rightarrow> []))
                 members)"

definition failures :: "transport \<Rightarrow> (string \<rightharpoonup> ws) \<Rightarrow> string option \<Rightarrow> string list \<Rightarrow> string list" where
  "failures net active exclude members =
     filter (\<lambda>c. Some c \<noteq> exclude \<and> (case active c of None \<Rightarrow> False | Some w \<Rightarrow> net w \<noteq> None))
            members"

definition disconnect_all :: "string list \<Rightarrow> world \<Rightarrow> world" where
  "disconnect_all cs s = fold (\<lambda>connection_id t. disconnect t connection_id) cs s"

text \<open>
  \<open>moves s t\<close>: \<open>t\<close> comes from \<open>s\<close> by the state changes the message handlers are made
  of. Every turn of a message loop is such a move (lemma \<open>moves_on_text\<close>), so a property
  kept by each rule is kept by the loop.
\<close>

inductive moves :: "world \<Rightarrow> world \<Rightarrow> bool" where
  moves_refl: "moves s s"
| moves_wire: "moves s t \<Longrightarrow> moves s (t\<lparr>wire := w\<rparr>)"
| moves_disconnect: "moves s t \<Longrightarrow> moves s (disconnect t c)"
| moves_join: "moves s t \<Longrightarrow> join_room t c r = Inr t' \<Longrightarrow> truthy r \<Longrightarrow> truthy p \<Longrightarrow>
     moves s (t'\<lparr>connection_players := (connection_players t')(c \<mapsto> p)\<rparr>)"
| moves_leave: "moves s t \<Longrightarrow> leave_room t c r = Inr t' \<Longrightarrow> moves s t'"
| moves_meanwhile: "moves s t \<Longrightarrow> moves s (t\<lparr>meanwhile := plan\<rparr>)"

definition moves_to :: "world \<Rightarrow> result \<Rightarrow> bool" where
  "moves_to s r = (case r of Inl (e, s') \<Rightarrow> moves s s' | Inr s' \<Rightarrow> moves s s')"

text \<open>
  A sequence of \<^verbatim>\<open>join_room\<close> and \<^verbatim>\<open>leave_room\<close> calls on the manager; an exception
  ends the sequence, as it would end the caller.
\<close>

datatype call = Join string json | Leave string json

fun call_room :: "call \<Rightarrow> json" where
  "call_room (Join connection_id room_id) = room_id"
| "call_room (Leave connection_id room_id) = room_id"

fun apply_call :: "world \<Rightarrow> call \<Rightarrow> exn + world" where
  "apply_call s (Join connection_id room_id) = join_room s connection_id room_id"
| "apply_call s (Leave connection_id room_id) = leave_room s connection_id room_id"

fun apply_calls :: "world \<Rightarrow> call list \<Rightarrow> exn + world" where
  "apply_calls s [] = Inr s"
| "apply_calls s (x # xs) =
     (case apply_call s x of Inl e \<Rightarrow> Inl e | Inr s' \<Rightarrow> apply_calls s' xs)"

text \<open>
  The membership the specification reads off a sequence of calls: what the last call for
  the pair of connection \<open>c\<close> and room key \<open>k\<close> says (\<open>True\<close> after a join, \<open>False\<close> after
  a leave), and \<open>None\<close> when no call names the pair.
\<close>

fun names_pair :: "string \<Rightarrow> key \<Rightarrow> call \<Rightarrow> bool option" where
  "names_pair c k (Join c' room_id) = (if c' = c \<and> key_of room_id = Some k then Some True else None)"
| "names_pair c k (Leave c' room_id) = (if c' = c \<and> key_of room_id = Some k then Some False else None)"

fun last_call :: "string \<Rightarrow> key \<Rightarrow> call list \<Rightarrow> bool option" where
  "last_call c k [] = None"
| "last_call c k (x # xs) =
     (case last_call c k xs of Some b \<Rightarrow> Some b | None \<Rightarrow> names_pair c k x)"

text \<open>
  The invariant of the endpoint that \<^verbatim>\<open>disconnect\<close> relies on: whoever is in a room has a
  player id on record (the \<^verbatim>\<open>join_room\<close> branch stores both at once).
\<close>

definition members_have_players :: "world \<Rightarrow> bool" where
  "members_have_players s = (\<forall>k c. in_room s c k \<longrightarrow> connection_players s c \<noteq> None)"

text \<open>The \<open>type\<close> of an outbound message.\<close>

definition message_type :: "json \<Rightarrow> json" where
  "message_type m = (case m of JObj items \<Rightarrow> dict_get items ''type'' | _ \<Rightarrow> JNull)"

text \<open>
  The frames one turn of the message loop of connection \<open>c\<close> with websocket \<open>w\<close> may put
  on the wire, starting in state \<open>s\<close>: a reply to \<open>w\<close> itself (\<open>room_joined\<close>, \<open>room_left\<close>,
  \<open>pong\<close>, \<open>error\<close>), or a frame to the handle registered for another connection id.
  \<open>frames_ok s w c t\<close>: the wire of \<open>t\<close> is the wire of \<open>s\<close> and then such frames only.
\<close>

definition reply_or_relay :: "world \<Rightarrow> ws \<Rightarrow> string \<Rightarrow> ws \<times> json \<Rightarrow> bool" where
  "reply_or_relay s w c fr =
     ((fst fr = w \<and> message_type (snd fr) \<in>
         {JStr ''room_joined'', JStr ''room_left'', JStr ''pong'', JStr ''error''})
      \<or> (\<exists>c'. c' \<noteq> c \<and> active_connections s c' = Some (fst fr)))"

definition frames_ok :: "world \<Rightarrow> ws \<Rightarrow> string \<Rightarrow> world \<Rightarrow> bool" where
  "frames_ok s w c t = (\<exists>fs. wire t = wire s @ fs \<and> (\<forall>fr\<in>set fs. reply_or_relay s w c fr))"

text \<open>\<open>registry_shrinks s t\<close>: every registry entry of \<open>t\<close> is one of \<open>s\<close>.\<close>

definition registry_shrinks :: "world \<Rightarrow> world \<Rightarrow> bool" where
  "registry_shrinks s t =
     (\<forall>c w. active_connections t c = Some w \<longrightarrow> active_connections s c = Some w)"

definition frames_ok_result :: "world \<Rightarrow> ws \<Rightarrow> string \<Rightarrow> result \<Rightarrow> bool" where
  "frames_ok_result s w c r =
     (case r of Inl (e, t) \<Rightarrow> frames_ok s w c t | Inr t \<Rightarrow> frames_ok s w c t)"

text \<open>The keys of room ids that are false in Python: \<^verbatim>\<open>None\<close>, \<^verbatim>\<open>0\<close>/\<^verbatim>\<open>False\<close>, the empty string.\<close>

definition falsy_key :: "key \<Rightarrow> bool" where
  "falsy_key k = (k = KNone \<or> k = KInt 0 \<or> k = KStr [])"

subsection \<open>States and transports for examples\<close>

text \<open>
  A state for examples: connections \<open>a\<close> and \<open>b\<close> are registered with the handles 1 and 2,
  have the players \<open>pa\<close> and \<open>pb\<close> on record and are the members of room \<open>r1\<close>.
\<close>

definition two_players :: world where
  "two_players =
     \<lparr>active_connections = [''a'' \<mapsto> 1, ''b'' \<mapsto> 2],
      connection_players = [''a'' \<mapsto> JStr ''pa'', ''b'' \<mapsto> JStr ''pb''],
      rooms = [KStr ''r1'' \<mapsto> [''a'', ''b'']],
      wire = [], meanwhile = []\<rparr>"

text \<open>
  \<open>two_players\<close> and an outsider: connection \<open>z\<close> with handle 3 and player \<open>pz\<close>, a member
  of room \<open>r2\<close> only.
\<close>

definition with_outsider :: world where
  "with_outsider =
     \<lparr>active_connections = [''a'' \<mapsto> 1, ''b'' \<mapsto> 2, ''z'' \<mapsto> 3],
      connection_players = [''a'' \<mapsto> JStr ''pa'', ''b'' \<mapsto> JStr ''pb'', ''z'' \<mapsto> JStr ''pz''],
      rooms = [KStr ''r2'' \<mapsto> [''z''], KStr ''r1'' \<mapsto> [''a'', ''b'']],
      wire = [], meanwhile = []\<rparr>"

text \<open>A transport on which the handle 2 is dead and every other handle takes frames.\<close>

definition only_2_fails :: transport where
  "only_2_fails w = (if w = 2 then Some ''connection closed'' else None)"

text \<open>
  Three players in room \<open>r1\<close>, visited in the order \<open>b\<close>, \<open>a\<close>, \<open>d\<close>, and a plan for the
  other tasks: nothing during the first suspension of the next broadcast loop; during
  the second, connection \<open>z\<close> joins room \<open>r1\<close>.
\<close>

definition room_changes_mid_broadcast :: world where
  "room_changes_mid_broadcast =
     \<lparr>active_connections = [''a'' \<mapsto> 1, ''b'' \<mapsto> 2, ''d'' \<mapsto> 4],
      connection_players = [''a'' \<mapsto> JStr ''pa'', ''b'' \<mapsto> JStr ''pb'', ''d'' \<mapsto> JStr ''pd''],
      rooms = [KStr ''r1'' \<mapsto> [''b'', ''a'', ''d'']],
      wire = [],
      meanwhile = [[], [Joins ''z'' (JStr ''r1'') (JStr ''pz'')]]\<rparr>"

text \<open>
  A run of the server: \<open>a\<close> and \<open>b\<close> connect and join room \<open>r1\<close>; a relay of \<open>a\<close> fails on
  the handle of \<open>b\<close>, so \<open>b\<close> is dropped from the registry and the room; the task of \<open>b\<close>
  is still in its loop, its transport takes frames again, and it joins \<open>r1\<close> once more.
\<close>

definition rejoin_after_drop :: "(transport \<times> event) list" where
  "rejoin_after_drop =
     [(all_live, Open 1 ''a''),
      (all_live, Open 2 ''b''),
      (all_live, Turn 1 ''a'' (Text (Inr (JObj [(''type'', JStr ''join_room''),
         (''roomId'', JStr ''r1''), (''playerId'', JStr ''pa'')])))),
      (all_live, Turn 2 ''b'' (Text (Inr (JObj [(''type'', JStr ''join_room''),
         (''roomId'', JStr ''r1''), (''playerId'', JStr ''pb'')])))),
      (only_2_fails, Turn 1 ''a'' (Text (Inr (JObj [(''type'', JStr ''game_state''),
         (''roomId'', JStr ''r1'')])))),
      (all_live, Turn 2 ''b'' (Text (Inr (JObj [(''type'', JStr ''join_room''),
         (''roomId'', JStr ''r1''), (''playerId'', JStr ''pb'')]))))]"

section \<open>Basic facts\<close>

text \<open>The definitions a concrete run unfolds to when it is evaluated.\<close>

lemmas eval_defs = on_text_def dispatch_def on_join_room_def on_leave_room_def on_game_state_def
  on_ping_def raise_at_def and_then_def send_json_def broadcast_to_room_def join_room_def
  leave_room_def open_endpoint_def connect_def disconnect_def all_live_def initial_def
  dict_get_def set_add_def set_discard_def in_room_def greeting_def error_reply_def Let_def
  two_players_def emitted_def members_of_def suspended_def set_changed_def

lemma disconnect_active [simp]:
  "active_connections (disconnect s c) = (active_connections s)(c := None)"
  by (auto simp: disconnect_def Let_def fun_eq_iff)

lemma disconnect_players [simp]:
  "connection_players (disconnect s c) = (connection_players s)(c := None)"
  by (auto simp: disconnect_def Let_def fun_eq_iff)

lemma disconnect_wire [simp]: "wire (disconnect s c) = wire s"
  by (simp add: disconnect_def Let_def)

lemma disconnect_meanwhile [simp]: "meanwhile (disconnect s c) = meanwhile s"
  by (simp add: disconnect_def Let_def)

lemma disconnect_rooms:
  "rooms (disconnect s c) k =
     (if connection_players s c \<noteq> None then map_option (set_discard c) (rooms s k) else rooms s k)"
  by (auto simp: disconnect_def Let_def)

lemma disconnect_absent:
  "active_connections s c = None \<Longrightarrow> connection_players s c = None \<Longrightarrow> disconnect s c = s"
  by (simp add: disconnect_def Let_def)

lemma disconnect_all_wire [simp]: "wire (disconnect_all cs s) = wire s"
  unfolding disconnect_all_def by (induction cs arbitrary: s) auto

lemma disconnect_all_active:
  "active_connections (disconnect_all cs s) c = (if c \<in> set cs then None else active_connections s c)"
  unfolding disconnect_all_def by (induction cs arbitrary: s) auto

lemma disconnect_all_players:
  "connection_players (disconnect_all cs s) c = (if c \<in> set cs then None else connection_players s c)"
  unfolding disconnect_all_def by (induction cs arbitrary: s) auto

lemma disconnect_all_rooms_dom:
  "(rooms (disconnect_all cs s) k = None) = (rooms s k = None)"
  unfolding disconnect_all_def by (induction cs arbitrary: s) (auto simp: disconnect_rooms)

lemma disconnect_in_room:
  "in_room (disconnect s c) c' k = (in_room s c' k \<and> \<not> (c' = c \<and> connection_players s c \<noteq> None))"
  by (auto simp: in_room_def disconnect_rooms set_discard_def split: option.splits)

lemma disconnect_all_in_room:
  "in_room (disconnect_all cs s) c' k = (in_room s c' k \<and> \<not> (c' \<in> set cs \<and> connection_players s c' \<noteq> None))"
  unfolding disconnect_all_def
  by (induction cs arbitrary: s) (auto simp: disconnect_in_room)

lemma disconnect_all_nil [simp]: "disconnect_all [] s = s"
  by (simp add: disconnect_all_def)

subsection \<open>The loop of a broadcast that no other task disturbs\<close>

lemma suspended_quiet [simp]: "meanwhile s = [] \<Longrightarrow> suspended s = s"
  by (simp add: suspended_def)

lemma broadcast_loop_quiet_aux:
  assumes "meanwhile s = []" "rooms s k = Some members" "active_connections s = active"
  shows "broadcast_loop net message exclude k (length members) positions (s, d) =
     Inr (s\<lparr>wire := wire s @ frames net active message exclude (map ((!) members) positions)\<rparr>,
          d @ failures net active exclude (map ((!) members) positions))"
  using assms
proof (induction positions arbitrary: s d)
  case Nil
  then show ?case by (simp add: frames_def failures_def members_of_def)
next
  case (Cons i positions)
  let ?c = "members ! i"
  have m: "members_of s k = members" using Cons.prems by (simp add: members_of_def)
  note IH = Cons.IH[unfolded frames_def failures_def]
  show ?case
  proof (cases "Some ?c = exclude")
    case True
    then show ?thesis
      using IH[OF Cons.prems, of d] m by (simp add: frames_def failures_def)
  next
    case False
    show ?thesis
    proof (cases "active ?c")
      case None
      then show ?thesis
        using IH[OF Cons.prems, of d] m False Cons.prems(3)
        by (simp add: frames_def failures_def)
    next
      case (Some w)
      show ?thesis
      proof (cases "net w")
        case None
        let ?s' = "s\<lparr>wire := wire s @ [(w, message)]\<rparr>"
        have "meanwhile ?s' = []" "rooms ?s' k = Some members" "active_connections ?s' = active"
          using Cons.prems by simp_all
        from IH[OF this, of d] show ?thesis
          using m False Some None Cons.prems(1,3)
          by (simp add: frames_def failures_def send_json_def)
      next
        case (Some reason)
        then show ?thesis
          using IH[OF Cons.prems, of "d @ [?c]"] m False \<open>active ?c = Some w\<close> Cons.prems(1,3)
          by (simp add: frames_def failures_def send_json_def)
      qed
    qed
  qed
qed

lemma broadcast_loop_quiet:
  assumes "meanwhile s = []" "rooms s k = Some members"
  shows "broadcast_loop net message exclude k (length members) positions (s, d) =
     Inr (s\<lparr>wire := wire s @ frames net (active_connections s) message exclude
                              (map ((!) members) positions)\<rparr>,
          d @ failures net (active_connections s) exclude (map ((!) members) positions))"
  by (rule broadcast_loop_quiet_aux[OF assms refl])

lemma broadcast_to_room_eq:
  "key_of room_id = Some k \<Longrightarrow> rooms s k = Some members \<Longrightarrow> meanwhile s = [] \<Longrightarrow>
   broadcast_to_room net s message room_id exclude =
     Inr (disconnect_all (failures net (active_connections s) exclude members)
            (s\<lparr>wire := wire s @ frames net (active_connections s) message exclude members\<rparr>))"
  by (simp add: broadcast_to_room_def broadcast_loop_quiet disconnect_all_def map_nth)

lemma broadcast_to_room_no_room:
  "key_of room_id = Some k \<Longrightarrow> rooms s k = None \<Longrightarrow>
   broadcast_to_room net s message room_id exclude = Inr s"
  by (simp add: broadcast_to_room_def)

lemma broadcast_to_room_unhashable:
  "key_of room_id = None \<Longrightarrow>
   broadcast_to_room net s message room_id exclude = Inl (unhashable room_id, s)"
  by (simp add: broadcast_to_room_def)

subsection \<open>Every turn is made of moves\<close>

lemma moves_to_simps [simp]:
  "moves_to s (Inl (e, t)) = moves s t" "moves_to s (Inr t) = moves s t"
  by (simp_all add: moves_to_def)

lemma moves_disconnect_all: "moves s t \<Longrightarrow> moves s (disconnect_all cs t)"
  unfolding disconnect_all_def
  by (induction cs arbitrary: t) (auto intro: moves_disconnect)

lemma moves_act: "moves s t \<Longrightarrow> moves s (act t a)"
proof (cases a)
  case (Joins c r p)
  then show "moves s t \<Longrightarrow> ?thesis"
    by (cases "join_room t c r") (auto intro: moves_join)
next
  case (Leaves c r)
  then show "moves s t \<Longrightarrow> ?thesis"
    by (cases "leave_room t c r") (auto intro: moves_leave)
next
  case (Drops c)
  then show "moves s t \<Longrightarrow> ?thesis" by (simp add: moves_disconnect)
qed

lemma moves_acts: "moves s t \<Longrightarrow> moves s (fold (\<lambda>a u. act u a) acts t)"
  by (induction acts arbitrary: t) (simp_all add: moves_act)

lemma moves_suspended: "moves s t \<Longrightarrow> moves s (suspended t)"
  by (cases "meanwhile t") (simp_all add: suspended_def moves_acts moves_meanwhile)

lemma moves_send: "moves s t \<Longrightarrow> moves_to s (raise_at t (send_json net w m t))"
  by (auto simp: send_json_def raise_at_def intro: moves_wire split: option.splits)

lemma moves_broadcast_loop:
  "moves s0 s \<Longrightarrow>
   (case broadcast_loop net message exclude k n positions (s, d) of
      Inl (e, t) \<Rightarrow> moves s0 t
    | Inr (t, d') \<Rightarrow> moves s0 t)"
proof (induction positions arbitrary: s d)
  case Nil
  then show ?case by simp
next
  case (Cons i positions)
  let ?c = "members_of s k ! i"
  show ?case
  proof (cases "length (members_of s k) \<noteq> n \<or> Some ?c = exclude \<or> active_connections s ?c = None")
    case True
    then show ?thesis using Cons.IH[OF Cons.prems, of d] Cons.prems by (auto simp: Let_def)
  next
    case False
    then obtain w where w: "active_connections s ?c = Some w" by auto
    show ?thesis
    proof (cases "net w")
      case None
      have "moves s0 (suspended (s\<lparr>wire := wire s @ [(w, message)]\<rparr>))"
        by (intro moves_suspended moves_wire Cons.prems)
      from Cons.IH[OF this, of d] show ?thesis
        using False w None by (simp add: send_json_def Let_def)
    next
      case (Some reason)
      have "moves s0 (suspended s)" by (intro moves_suspended Cons.prems)
      from Cons.IH[OF this, of "d @ [?c]"] show ?thesis
        using False w Some by (simp add: send_json_def Let_def)
    qed
  qed
qed

lemma moves_broadcast:
  assumes "moves s t"
  shows "moves_to s (broadcast_to_room net t message room_id exclude)"
proof (cases "key_of room_id")
  case None
  then show ?thesis using assms by (simp add: broadcast_to_room_def)
next
  case (Some k)
  show ?thesis
  proof (cases "rooms t k")
    case None
    then show ?thesis using assms Some by (simp add: broadcast_to_room_def)
  next
    case (Some members)
    show ?thesis
      using moves_broadcast_loop[OF assms, of net message exclude k "length members"
              "[0..<length members]" "[]"]
            \<open>key_of room_id = Some k\<close> Some
      by (auto simp: broadcast_to_room_def moves_disconnect_all[unfolded disconnect_all_def]
               split: sum.splits)
  qed
qed

lemma moves_to_and_then:
  "moves_to s r \<Longrightarrow> (\<And>t. r = Inr t \<Longrightarrow> moves_to s (f t)) \<Longrightarrow> moves_to s (and_then r f)"
  by (cases r) (auto simp: and_then_def)

lemma send_json_Inr: "send_json net w m s = Inr s' \<Longrightarrow> s' = s\<lparr>wire := wire s @ [(w, m)]\<rparr>"
  by (auto simp: send_json_def split: option.splits)

lemma raise_at_Inr: "raise_at s r = Inr s' \<Longrightarrow> r = Inr s'"
  by (cases r) (simp_all add: raise_at_def)

lemma moves_on_join_room: "moves_to s (on_join_room net s websocket connection_id items)"
proof (cases "truthy (dict_get items ''roomId'') \<and> truthy (dict_get items ''playerId'')")
  case False
  then show ?thesis by (auto simp: on_join_room_def Let_def intro: moves_refl)
next
  case True
  let ?r = "dict_get items ''roomId''" and ?p = "dict_get items ''playerId''"
  show ?thesis
  proof (cases "join_room s connection_id ?r")
    case (Inl e)
    then show ?thesis using True
      by (simp add: on_join_room_def Let_def raise_at_def and_then_def moves_refl)
  next
    case (Inr s1)
    let ?s2 = "s1\<lparr>connection_players := (connection_players s1)(connection_id \<mapsto> ?p)\<rparr>"
    have m2: "moves s ?s2"
      using moves_join[OF moves_refl Inr] True by simp
    have "moves_to s (and_then (raise_at ?s2 (send_json net websocket
             (JObj [(''type'', JStr ''room_joined''), (''roomId'', ?r)]) ?s2))
           (\<lambda>s3. broadcast_to_room net s3
                   (JObj [(''type'', JStr ''player_joined''), (''playerId'', ?p), (''roomId'', ?r)])
                   ?r (Some connection_id)))"
    proof (rule moves_to_and_then)
      show "moves_to s (raise_at ?s2 (send_json net websocket
             (JObj [(''type'', JStr ''room_joined''), (''roomId'', ?r)]) ?s2))"
        by (rule moves_send[OF m2])
    next
      fix t
      assume "raise_at ?s2 (send_json net websocket
             (JObj [(''type'', JStr ''room_joined''), (''roomId'', ?r)]) ?s2) = Inr t"
      then have "t = ?s2\<lparr>wire := wire ?s2 @ [(websocket, JObj [(''type'', JStr ''room_joined''), (''roomId'', ?r)])]\<rparr>"
        by (blast dest: raise_at_Inr send_json_Inr)
      then have "moves s t" using moves_wire[OF m2] by simp
      then show "moves_to s (broadcast_to_room net t
                   (JObj [(''type'', JStr ''player_joined''), (''playerId'', ?p), (''roomId'', ?r)])
                   ?r (Some connection_id))"
        by (rule moves_broadcast)
    qed
    then show ?thesis using True Inr
      by (simp add: on_join_room_def Let_def raise_at_def and_then_def)
  qed
qed

lemma moves_on_leave_room: "moves_to s (on_leave_room net s websocket connection_id items)"
proof (cases "truthy (dict_get items ''roomId'')")
  case False
  then show ?thesis by (auto simp: on_leave_room_def Let_def intro: moves_refl)
next
  case True
  let ?r = "dict_get items ''roomId''"
  show ?thesis
  proof (cases "leave_room s connection_id ?r")
    case (Inl e)
    then show ?thesis using True
      by (simp add: on_leave_room_def Let_def raise_at_def and_then_def moves_refl)
  next
    case (Inr s1)
    have m1: "moves s s1" using moves_leave[OF moves_refl Inr] .
    let ?m = "JObj [(''type'', JStr ''room_left''), (''roomId'', ?r)]"
    have "moves_to s (and_then (raise_at s1 (send_json net websocket ?m s1)) f)"
      if f: "\<And>t. moves s t \<Longrightarrow> moves_to s (f t)" for f
    proof (rule moves_to_and_then)
      show "moves_to s (raise_at s1 (send_json net websocket ?m s1))"
        by (rule moves_send[OF m1])
    next
      fix t
      assume "raise_at s1 (send_json net websocket ?m s1) = Inr t"
      then have "t = s1\<lparr>wire := wire s1 @ [(websocket, ?m)]\<rparr>"
        by (blast dest: raise_at_Inr send_json_Inr)
      then have "moves s t" using moves_wire[OF m1] by simp
      then show "moves_to s (f t)" by (rule f)
    qed
    then show ?thesis using True Inr
      by (simp add: on_leave_room_def Let_def raise_at_def[of s] and_then_def[of "Inr s1"]
                    moves_broadcast)
  qed
qed

lemma moves_on_game_state: "moves_to s (on_game_state net s connection_id items)"
  unfolding on_game_state_def Let_def
  using moves_broadcast[OF moves_refl, of s net] by (simp add: moves_refl)

lemma moves_on_ping: "moves_to s (on_ping net s websocket)"
  unfolding on_ping_def by (rule moves_send[OF moves_refl])

lemma moves_dispatch: "moves_to s (dispatch net s websocket connection_id message)"
  by (cases message)
     (simp_all add: dispatch_def Let_def moves_refl moves_on_join_room moves_on_leave_room
                    moves_on_game_state moves_on_ping)

lemma moves_on_text: "moves s (state_of (on_text net s websocket connection_id decoded))"
proof (cases decoded)
  case (Inl e)
  then show ?thesis
    by (auto simp: on_text_def send_json_def split: option.splits
             intro: moves_refl moves_wire moves_disconnect)
next
  case (Inr message)
  show ?thesis
    using moves_dispatch[of s net websocket connection_id message] unfolding on_text_def Inr
    by (cases "dispatch net s websocket connection_id message")
       (auto simp: send_json_def split: option.splits intro: moves_wire moves_disconnect)
qed

subsection \<open>Joining and leaving\<close>

lemma join_room_eq:
  "key_of room_id = Some k \<Longrightarrow>
   join_room s c room_id =
     Inr (s\<lparr>rooms := (rooms s)(k \<mapsto> set_add c (case rooms s k of None \<Rightarrow> [] | Some ms \<Rightarrow> ms))\<rparr>)"
  by (simp add: join_room_def)

lemma leave_room_eq:
  "key_of room_id = Some k \<Longrightarrow>
   leave_room s c room_id =
     Inr (case rooms s k of None \<Rightarrow> s
          | Some ms \<Rightarrow> s\<lparr>rooms := (rooms s)(k \<mapsto> set_discard c ms)\<rparr>)"
  by (simp add: leave_room_def split: option.splits)

lemma join_room_in_room:
  "join_room s c room_id = Inr s' \<Longrightarrow>
   in_room s' c' k' = (in_room s c' k' \<or> (c' = c \<and> key_of room_id = Some k'))"
  by (auto simp: join_room_def in_room_def set_add_def split: option.splits if_splits)

lemma leave_room_in_room:
  "leave_room s c room_id = Inr s' \<Longrightarrow>
   in_room s' c' k' = (in_room s c' k' \<and> \<not> (c' = c \<and> key_of room_id = Some k'))"
  by (auto simp: leave_room_def in_room_def set_discard_def split: option.splits if_splits)

lemma join_room_twice:
  assumes "join_room s c room_id = Inr s1"
  shows "join_room s1 c room_id = Inr s1"
proof -
  obtain k where k: "key_of room_id = Some k"
    using assms by (auto simp: join_room_def split: option.splits)
  let ?ms = "set_add c (case rooms s k of None \<Rightarrow> [] | Some ms \<Rightarrow> ms)"
  have s1: "s1 = s\<lparr>rooms := (rooms s)(k \<mapsto> ?ms)\<rparr>"
    using assms by (simp add: join_room_eq[OF k])
  have "set_add c ?ms = ?ms" by (simp add: set_add_def)
  then show ?thesis by (simp add: join_room_eq[OF k] s1)
qed

lemma leave_room_twice:
  assumes "leave_room s c room_id = Inr s1"
  shows "leave_room s1 c room_id = Inr s1"
proof -
  obtain k where k: "key_of room_id = Some k"
    using assms by (auto simp: leave_room_def split: option.splits)
  show ?thesis
  proof (cases "rooms s k")
    case None
    then show ?thesis using assms by (simp add: leave_room_eq[OF k])
  next
    case (Some ms)
    then have s1: "s1 = s\<lparr>rooms := (rooms s)(k \<mapsto> set_discard c ms)\<rparr>"
      using assms by (simp add: leave_room_eq[OF k])
    have "set_discard c (set_discard c ms) = set_discard c ms" by (simp add: set_discard_def)
    then show ?thesis by (simp add: leave_room_eq[OF k] s1)
  qed
qed

lemma leave_room_non_member:
  assumes "key_of room_id = Some k" "\<not> in_room s c k"
  shows "leave_room s c room_id = Inr s"
proof (cases "rooms s k")
  case None
  then show ?thesis by (simp add: leave_room_eq[OF assms(1)])
next
  case (Some ms)
  then have "c \<notin> set ms" using assms(2) by (simp add: in_room_def)
  then have "set_discard c ms = ms" by (simp add: set_discard_def)
  then have "(rooms s)(k \<mapsto> set_discard c ms) = rooms s" using Some by (auto simp: fun_eq_iff)
  then show ?thesis by (simp add: leave_room_eq[OF assms(1)] Some)
qed

lemma apply_call_in_room:
  "apply_call s x = Inr s' \<Longrightarrow>
   in_room s' c k = (case names_pair c k x of None \<Rightarrow> in_room s c k | Some b \<Rightarrow> b)"
  by (cases x) (auto simp: join_room_in_room leave_room_in_room)

lemma apply_call_returns: "key_of (call_room x) \<noteq> None \<Longrightarrow> \<exists>s'. apply_call s x = Inr s'"
  by (cases x) (auto simp: join_room_eq leave_room_eq)

lemma apply_calls_returns:
  "\<forall>x\<in>set calls. key_of (call_room x) \<noteq> None \<Longrightarrow> \<exists>s'. apply_calls s calls = Inr s'"
proof (induction calls arbitrary: s)
  case Nil
  show ?case by simp
next
  case (Cons x xs)
  then obtain s1 where "apply_call s x = Inr s1"
    using apply_call_returns[of x s] by auto
  then show ?case using Cons.IH[of s1] Cons.prems by simp
qed

lemma apply_calls_in_room:
  "apply_calls s calls = Inr s' \<Longrightarrow>
   in_room s' c k = (case last_call c k calls of None \<Rightarrow> in_room s c k | Some b \<Rightarrow> b)"
proof (induction calls arbitrary: s)
  case Nil
  then show ?case by simp
next
  case (Cons x xs)
  then obtain s1 where s1: "apply_call s x = Inr s1" and rest: "apply_calls s1 xs = Inr s'"
    by (auto split: sum.splits)
  show ?case
    using Cons.IH[OF rest] apply_call_in_room[OF s1, of c k]
    by (simp split: option.splits)
qed

subsection \<open>What every turn of the endpoint keeps\<close>

lemma in_room_wire [simp]: "in_room (s\<lparr>wire := w\<rparr>) c k = in_room s c k"
  by (simp add: in_room_def)

lemma in_room_players [simp]: "in_room (s\<lparr>connection_players := p\<rparr>) c k = in_room s c k"
  by (simp add: in_room_def)

lemma in_room_meanwhile [simp]: "in_room (s\<lparr>meanwhile := m\<rparr>) c k = in_room s c k"
  by (simp add: in_room_def)

lemma in_room_active [simp]: "in_room (s\<lparr>active_connections := a\<rparr>) c k = in_room s c k"
  by (simp add: in_room_def)

lemma join_room_players: "join_room s c r = Inr s' \<Longrightarrow> connection_players s' = connection_players s"
  by (auto simp: join_room_def split: option.splits)

lemma join_room_active: "join_room s c r = Inr s' \<Longrightarrow> active_connections s' = active_connections s"
  by (auto simp: join_room_def split: option.splits)

lemma join_room_wire: "join_room s c r = Inr s' \<Longrightarrow> wire s' = wire s"
  by (auto simp: join_room_def split: option.splits)

lemma leave_room_players: "leave_room s c r = Inr s' \<Longrightarrow> connection_players s' = connection_players s"
  by (auto simp: leave_room_def split: option.splits)

lemma leave_room_active: "leave_room s c r = Inr s' \<Longrightarrow> active_connections s' = active_connections s"
  by (auto simp: leave_room_def split: option.splits)

lemma leave_room_wire: "leave_room s c r = Inr s' \<Longrightarrow> wire s' = wire s"
  by (auto simp: leave_room_def split: option.splits)

lemma join_room_keeps_key: "join_room s c r = Inr s' \<Longrightarrow> rooms s k \<noteq> None \<Longrightarrow> rooms s' k \<noteq> None"
  by (auto simp: join_room_def split: option.splits)

lemma leave_room_keeps_key: "leave_room s c r = Inr s' \<Longrightarrow> rooms s k \<noteq> None \<Longrightarrow> rooms s' k \<noteq> None"
  by (auto simp: leave_room_def split: option.splits)

lemma disconnect_keeps_key: "rooms s k \<noteq> None \<Longrightarrow> rooms (disconnect s c) k \<noteq> None"
  by (auto simp: disconnect_rooms)

lemma moves_keeps_key: "moves s t \<Longrightarrow> rooms s k \<noteq> None \<Longrightarrow> rooms t k \<noteq> None"
proof (induction rule: moves.induct)
  case (moves_join s t c r t' p)
  then show ?case using join_room_keeps_key[of t c r t' k] by simp
next
  case (moves_leave s t c r t')
  then show ?case using leave_room_keeps_key[of t c r t' k] by simp
qed (simp_all add: disconnect_keeps_key)

lemma broadcast_moves:
  "broadcast_to_room net s message room_id exclude = Inr s' \<Longrightarrow> moves s s'"
  using moves_broadcast[OF moves_refl, of s net message room_id exclude]
  by simp

lemma broadcast_keeps_key:
  "broadcast_to_room net s message room_id exclude = Inr s' \<Longrightarrow> rooms s k \<noteq> None \<Longrightarrow>
   rooms s' k \<noteq> None"
  by (blast dest: broadcast_moves moves_keeps_key)

lemma moves_unregistered:
  "moves s t \<Longrightarrow> active_connections s c = None \<Longrightarrow> active_connections t c = None"
proof (induction rule: moves.induct)
  case (moves_join s t c' r t' p)
  then show ?case using join_room_active[of t c' r t'] by simp
next
  case (moves_leave s t c' r t')
  then show ?case using leave_room_active[of t c' r t'] by simp
qed simp_all

lemma members_have_players_disconnect:
  "members_have_players s \<Longrightarrow> members_have_players (disconnect s c)"
  by (auto simp: members_have_players_def disconnect_in_room)

lemma moves_members_have_players:
  "moves s t \<Longrightarrow> members_have_players s \<Longrightarrow> members_have_players t"
proof (induction rule: moves.induct)
  case (moves_join s t c r t' p)
  then show ?case
    using join_room_players[of t c r t']
    by (auto simp: members_have_players_def join_room_in_room[of t c r t'])
next
  case (moves_leave s t c r t')
  then show ?case
    using leave_room_players[of t c r t']
    by (auto simp: members_have_players_def leave_room_in_room[of t c r t'])
qed (simp_all add: members_have_players_disconnect, simp_all add: members_have_players_def)

lemma open_endpoint_cases:
  "state_of (open_endpoint net s w c) = s
   \<or> state_of (open_endpoint net s w c) =
        s\<lparr>active_connections := (active_connections s)(c \<mapsto> w),
          wire := wire s @ [(w, greeting c)]\<rparr>"
  by (auto simp: open_endpoint_def connect_def send_json_def split: option.splits)

lemma open_endpoint_keeps_key:
  "rooms s k \<noteq> None \<Longrightarrow> rooms (state_of (open_endpoint net s w c)) k \<noteq> None"
  using open_endpoint_cases[of net s w c] by auto

lemma open_endpoint_members_have_players:
  "members_have_players s \<Longrightarrow> members_have_players (state_of (open_endpoint net s w c))"
  using open_endpoint_cases[of net s w c] by (auto simp: members_have_players_def)

lemma moves_turn: "moves s (turn net s (Turn w c fr))"
  by (cases fr) (auto intro: moves_on_text moves_disconnect moves_refl)

lemma turn_keeps_key: "rooms s k \<noteq> None \<Longrightarrow> rooms (turn net s ev) k \<noteq> None"
proof (cases ev)
  case (Open w c)
  then show "rooms s k \<noteq> None \<Longrightarrow> ?thesis" by (simp add: open_endpoint_keeps_key)
next
  case (Turn w c fr)
  then show "rooms s k \<noteq> None \<Longrightarrow> ?thesis"
    using moves_keeps_key[OF moves_turn, of s k net w c fr] by simp
next
  case (Others plan)
  then show "rooms s k \<noteq> None \<Longrightarrow> ?thesis" by simp
qed

lemma turn_members_have_players:
  "members_have_players s \<Longrightarrow> members_have_players (turn net s ev)"
proof (cases ev)
  case (Open w c)
  then show "members_have_players s \<Longrightarrow> ?thesis" by (simp add: open_endpoint_members_have_players)
next
  case (Turn w c fr)
  then show "members_have_players s \<Longrightarrow> ?thesis"
    using moves_members_have_players[OF moves_turn, of s net w c fr] by simp
next
  case (Others plan)
  then show "members_have_players s \<Longrightarrow> ?thesis" by (simp add: members_have_players_def)
qed

lemma run_keeps_key: "rooms s k \<noteq> None \<Longrightarrow> rooms (run s evs) k \<noteq> None"
  by (induction s evs rule: run.induct) (simp_all add: turn_keeps_key)

lemma run_members_have_players:
  "members_have_players s \<Longrightarrow> members_have_players (run s evs)"
  by (induction s evs rule: run.induct) (simp_all add: turn_members_have_players)

lemma members_have_players_initial: "members_have_players initial"
  by (simp add: members_have_players_def initial_def in_room_def)

subsection \<open>The frames of a broadcast\<close>

lemma frames_mem:
  "((w, m) \<in> set (frames net active message exclude members)) =
   (m = message \<and> (\<exists>c\<in>set members. Some c \<noteq> exclude \<and> active c = Some w \<and> net w = None))"
  by (induction members) (auto simp: frames_def split: option.splits)

lemma failures_mem:
  "(c \<in> set (failures net active exclude members)) =
   (c \<in> set members \<and> Some c \<noteq> exclude \<and> (\<exists>w. active c = Some w \<and> net w \<noteq> None))"
  by (auto simp: failures_def split: option.splits)

lemma emitted_append [simp]: "wire t = wire s @ fs \<Longrightarrow> emitted s t = fs"
  by (simp add: emitted_def)

lemma emitted_self [simp]: "emitted s s = []"
  by (simp add: emitted_def)

lemma broadcast_returns:
  "key_of room_id = Some k \<Longrightarrow> meanwhile s = [] \<Longrightarrow>
   \<exists>s'. broadcast_to_room net s message room_id exclude = Inr s'"
  by (cases "rooms s k") (simp_all add: broadcast_to_room_no_room broadcast_to_room_eq)

lemma broadcast_emitted:
  assumes "broadcast_to_room net s message room_id exclude = Inr s'" "meanwhile s = []"
  shows "((w, m) \<in> set (emitted s s')) =
         (m = message \<and> (\<exists>k c. key_of room_id = Some k \<and> in_room s c k \<and> Some c \<noteq> exclude
                             \<and> active_connections s c = Some w \<and> net w = None))"
proof -
  from assms(1) obtain k where k: "key_of room_id = Some k"
    by (auto simp: broadcast_to_room_def split: option.splits)
  show ?thesis
  proof (cases "rooms s k")
    case None
    then show ?thesis using assms(1) k
      by (auto simp: broadcast_to_room_no_room[OF k] in_room_def)
  next
    case (Some members)
    have "wire s' = wire s @ frames net (active_connections s) message exclude members"
      using assms(1) by (auto simp: broadcast_to_room_eq[OF k Some assms(2)])
    then show ?thesis using k Some
      by (auto simp: frames_mem in_room_def)
  qed
qed

lemma broadcast_wire_extends:
  assumes "broadcast_to_room net s message room_id exclude = Inr s'" "meanwhile s = []"
  shows "\<exists>fs. wire s' = wire s @ fs"
proof -
  from assms(1) obtain k where k: "key_of room_id = Some k"
    by (auto simp: broadcast_to_room_def split: option.splits)
  show ?thesis
  proof (cases "rooms s k")
    case None
    then show ?thesis using assms(1) by (simp add: broadcast_to_room_no_room[OF k])
  next
    case (Some members)
    then show ?thesis using assms(1) by (auto simp: broadcast_to_room_eq[OF k Some assms(2)])
  qed
qed

lemma broadcast_drops_failed:
  assumes "broadcast_to_room net s message room_id exclude = Inr s'" "meanwhile s = []"
      and "key_of room_id = Some k" "in_room s c k" "Some c \<noteq> exclude"
      and "active_connections s c = Some w" "net w \<noteq> None"
  shows "active_connections s' c = None"
    and "connection_players s c \<noteq> None \<Longrightarrow> \<not> in_room s' c k'"
proof -
  from assms(4) obtain members where ms: "rooms s k = Some members" "c \<in> set members"
    by (auto simp: in_room_def split: option.splits)
  have s': "s' = disconnect_all (failures net (active_connections s) exclude members)
            (s\<lparr>wire := wire s @ frames net (active_connections s) message exclude members\<rparr>)"
    using assms(1) by (simp add: broadcast_to_room_eq[OF assms(3) ms(1) assms(2)])
  have f: "c \<in> set (failures net (active_connections s) exclude members)"
    using ms(2) assms(5,6,7) by (simp add: failures_mem)
  show "active_connections s' c = None"
    using f by (simp add: s' disconnect_all_active)
  show "connection_players s c \<noteq> None \<Longrightarrow> \<not> in_room s' c k'"
    using f by (simp add: s' disconnect_all_in_room)
qed

lemma join_room_meanwhile: "join_room s c r = Inr s' \<Longrightarrow> meanwhile s' = meanwhile s"
  by (auto simp: join_room_def split: option.splits)

lemma leave_room_meanwhile: "leave_room s c r = Inr s' \<Longrightarrow> meanwhile s' = meanwhile s"
  by (auto simp: leave_room_def split: option.splits)

subsection \<open>The frames of one turn\<close>

lemma act_wire [simp]: "wire (act s a) = wire s"
proof (cases a)
  case (Joins c r p)
  then show ?thesis by (cases "join_room s c r") (auto simp: join_room_wire)
next
  case (Leaves c r)
  then show ?thesis by (cases "leave_room s c r") (auto simp: leave_room_wire)
next
  case (Drops c)
  then show ?thesis by simp
qed

lemma act_registry: "active_connections (act s a) c = Some w \<Longrightarrow> active_connections s c = Some w"
proof (cases a)
  case (Joins c' r p)
  then show "active_connections (act s a) c = Some w \<Longrightarrow> ?thesis"
    by (cases "join_room s c' r") (auto simp: join_room_active split: if_splits)
next
  case (Leaves c' r)
  then show "active_connections (act s a) c = Some w \<Longrightarrow> ?thesis"
    by (cases "leave_room s c' r") (auto simp: leave_room_active split: if_splits)
next
  case (Drops c')
  then show "active_connections (act s a) c = Some w \<Longrightarrow> ?thesis"
    by (auto split: if_splits)
qed

lemma acts_wire [simp]: "wire (fold (\<lambda>a u. act u a) acts s) = wire s"
  by (induction acts arbitrary: s) simp_all

lemma acts_registry:
  "active_connections (fold (\<lambda>a u. act u a) acts s) c = Some w \<Longrightarrow> active_connections s c = Some w"
  by (induction acts arbitrary: s) (auto dest: act_registry)

lemma suspended_wire [simp]: "wire (suspended s) = wire s"
  by (cases "meanwhile s") (simp_all add: suspended_def)

lemma suspended_registry:
  "active_connections (suspended s) c = Some w \<Longrightarrow> active_connections s c = Some w"
  by (cases "meanwhile s") (auto simp: suspended_def dest: acts_registry)

lemma registry_shrinks_refl: "registry_shrinks s s"
  by (simp add: registry_shrinks_def)

lemma registry_shrinks_same:
  "registry_shrinks s t \<Longrightarrow> active_connections t' = active_connections t \<Longrightarrow> registry_shrinks s t'"
  by (simp add: registry_shrinks_def)

lemma registry_shrinks_suspended: "registry_shrinks s t \<Longrightarrow> registry_shrinks s (suspended t)"
  by (auto simp: registry_shrinks_def dest: suspended_registry)

lemma frames_ok_refl: "frames_ok s w c s"
  by (simp add: frames_ok_def)

lemma frames_ok_same_wire: "frames_ok s w c t \<Longrightarrow> wire t' = wire t \<Longrightarrow> frames_ok s w c t'"
  by (simp add: frames_ok_def)

lemma frames_ok_frame:
  assumes "frames_ok s w c t" "reply_or_relay s w c fr" "wire t' = wire t @ [fr]"
  shows "frames_ok s w c t'"
proof -
  from assms(1) obtain fs where fs: "wire t = wire s @ fs" "\<forall>fr\<in>set fs. reply_or_relay s w c fr"
    by (auto simp: frames_ok_def)
  then have "wire t' = wire s @ (fs @ [fr]) \<and> (\<forall>x\<in>set (fs @ [fr]). reply_or_relay s w c x)"
    using assms(2,3) by auto
  then show ?thesis unfolding frames_ok_def by blast
qed

lemma frames_ok_reply:
  assumes "frames_ok s w c t"
      and "message_type m \<in> {JStr ''room_joined'', JStr ''room_left'', JStr ''pong'', JStr ''error''}"
      and "wire t' = wire t @ [(w, m)]"
  shows "frames_ok s w c t'"
  by (rule frames_ok_frame[OF assms(1) _ assms(3)]) (use assms(2) in \<open>simp add: reply_or_relay_def\<close>)

lemma frames_ok_loop:
  assumes "frames_ok s w c t" "registry_shrinks s t"
  shows "case broadcast_loop net m (Some c) k n positions (t, d) of
           Inl (e, t') \<Rightarrow> frames_ok s w c t'
         | Inr (t', d') \<Rightarrow> frames_ok s w c t'"
  using assms
proof (induction positions arbitrary: t d)
  case Nil
  then show ?case by simp
next
  case (Cons i positions)
  let ?c = "members_of t k ! i"
  show ?case
  proof (cases "length (members_of t k) \<noteq> n \<or> Some ?c = Some c \<or> active_connections t ?c = None")
    case True
    then show ?thesis using Cons.IH[OF Cons.prems, of d] Cons.prems(1) by (auto simp: Let_def)
  next
    case False
    then obtain w' where w': "active_connections t ?c = Some w'" by auto
    show ?thesis
    proof (cases "net w'")
      case None
      let ?t' = "t\<lparr>wire := wire t @ [(w', m)]\<rparr>"
      have "reply_or_relay s w c (w', m)"
        using False w' Cons.prems(2) by (auto simp: reply_or_relay_def registry_shrinks_def)
      then have "frames_ok s w c ?t'"
        by (rule frames_ok_frame[OF Cons.prems(1)]) simp
      then have 1: "frames_ok s w c (suspended ?t')"
        by (rule frames_ok_same_wire) simp
      have 2: "registry_shrinks s (suspended ?t')"
        by (rule registry_shrinks_suspended) (use Cons.prems(2) in \<open>simp add: registry_shrinks_def\<close>)
      from Cons.IH[OF 1 2, of d] show ?thesis
        using False w' None by (simp add: send_json_def Let_def)
    next
      case (Some reason)
      have 1: "frames_ok s w c (suspended t)"
        by (rule frames_ok_same_wire[OF Cons.prems(1)]) simp
      have 2: "registry_shrinks s (suspended t)"
        by (rule registry_shrinks_suspended[OF Cons.prems(2)])
      from Cons.IH[OF 1 2, of "d @ [?c]"] show ?thesis
        using False w' Some by (simp add: send_json_def Let_def)
    qed
  qed
qed

lemma frames_ok_result_simps [simp]:
  "frames_ok_result s w c (Inl (e, t)) = frames_ok s w c t"
  "frames_ok_result s w c (Inr t) = frames_ok s w c t"
  by (simp_all add: frames_ok_result_def)

lemma frames_ok_broadcast:
  assumes "frames_ok s w c t" "registry_shrinks s t"
  shows "frames_ok_result s w c (broadcast_to_room net t m r (Some c))"
proof (cases "key_of r")
  case None
  then show ?thesis using assms(1) by (simp add: broadcast_to_room_def)
next
  case (Some k)
  show ?thesis
  proof (cases "rooms t k")
    case None
    then show ?thesis using assms(1) Some by (simp add: broadcast_to_room_def)
  next
    case (Some members)
    have "frames_ok s w c (disconnect_all cs u)" if "frames_ok s w c u" for cs u
      by (rule frames_ok_same_wire[OF that]) simp
    then show ?thesis
      using frames_ok_loop[OF assms, of net m k "length members" "[0..<length members]" "[]"]
            \<open>key_of r = Some k\<close> Some
      by (auto simp: broadcast_to_room_def disconnect_all_def split: sum.splits)
  qed
qed

lemma message_type_simps [simp]:
  "message_type (JObj ((''type'', v) # rest)) = v"
  by (simp add: message_type_def dict_get_def)

lemma frames_ok_on_join_room: "frames_ok_result s w c (on_join_room net s w c items)"
proof (cases "truthy (dict_get items ''roomId'') \<and> truthy (dict_get items ''playerId'')")
  case False
  then show ?thesis by (auto simp: on_join_room_def Let_def frames_ok_refl)
next
  case True
  let ?r = "dict_get items ''roomId''" and ?p = "dict_get items ''playerId''"
  show ?thesis
  proof (cases "join_room s c ?r")
    case (Inl e)
    then show ?thesis using True
      by (simp add: on_join_room_def Let_def raise_at_def and_then_def frames_ok_refl)
  next
    case (Inr s1)
    let ?s2 = "s1\<lparr>connection_players := (connection_players s1)(c \<mapsto> ?p)\<rparr>"
    have w2: "frames_ok s w c ?s2"
      by (rule frames_ok_same_wire[OF frames_ok_refl]) (simp add: join_room_wire[OF Inr])
    have a2: "active_connections ?s2 = active_connections s"
      by (simp add: join_room_active[OF Inr])
    show ?thesis
    proof (cases "net w")
      case (Some reason)
      then show ?thesis using True Inr w2
        by (simp add: on_join_room_def Let_def raise_at_def and_then_def send_json_def)
    next
      case None
      let ?m = "JObj [(''type'', JStr ''room_joined''), (''roomId'', ?r)]"
      let ?s3 = "?s2\<lparr>wire := wire ?s2 @ [(w, ?m)]\<rparr>"
      have w3: "frames_ok s w c ?s3"
        by (rule frames_ok_reply[OF w2, of "?m"]) simp_all
      have a3: "registry_shrinks s ?s3"
        by (rule registry_shrinks_same[OF registry_shrinks_refl]) (simp add: join_room_active[OF Inr])
      show ?thesis
        using True Inr None frames_ok_broadcast[OF w3 a3]
        by (simp add: on_join_room_def Let_def raise_at_def and_then_def send_json_def)
    qed
  qed
qed

lemma frames_ok_on_leave_room: "frames_ok_result s w c (on_leave_room net s w c items)"
proof (cases "truthy (dict_get items ''roomId'')")
  case False
  then show ?thesis by (auto simp: on_leave_room_def Let_def frames_ok_refl)
next
  case True
  let ?r = "dict_get items ''roomId''"
  show ?thesis
  proof (cases "leave_room s c ?r")
    case (Inl e)
    then show ?thesis using True
      by (simp add: on_leave_room_def Let_def raise_at_def and_then_def frames_ok_refl)
  next
    case (Inr s1)
    have w1: "frames_ok s w c s1"
      by (rule frames_ok_same_wire[OF frames_ok_refl]) (simp add: leave_room_wire[OF Inr])
    have a1: "active_connections s1 = active_connections s"
      by (simp add: leave_room_active[OF Inr])
    show ?thesis
    proof (cases "net w")
      case (Some reason)
      then show ?thesis using True Inr w1
        by (simp add: on_leave_room_def Let_def raise_at_def and_then_def send_json_def)
    next
      case None
      let ?m = "JObj [(''type'', JStr ''room_left''), (''roomId'', ?r)]"
      let ?s2 = "s1\<lparr>wire := wire s1 @ [(w, ?m)]\<rparr>"
      have w2: "frames_ok s w c ?s2"
        by (rule frames_ok_reply[OF w1, of "?m"]) simp_all
      have a2: "registry_shrinks s ?s2"
        by (rule registry_shrinks_same[OF registry_shrinks_refl]) (simp add: leave_room_active[OF Inr])
      show ?thesis
        using True Inr None frames_ok_broadcast[OF w2 a2] w2
        by (simp add: on_leave_room_def Let_def raise_at_def and_then_def send_json_def)
    qed
  qed
qed

lemma frames_ok_on_game_state: "frames_ok_result s w c (on_game_state net s c items)"
  unfolding on_game_state_def Let_def
  using frames_ok_broadcast[OF frames_ok_refl registry_shrinks_refl, of s w c net]
  by (simp add: frames_ok_refl)

lemma frames_ok_on_ping: "frames_ok_result s w c (on_ping net s w)"
proof (cases "net w")
  case None
  have "frames_ok s w c (s\<lparr>wire := wire s @ [(w, JObj [(''type'', JStr ''pong'')])]\<rparr>)"
    by (rule frames_ok_reply[OF frames_ok_refl, of "JObj [(''type'', JStr ''pong'')]"]) simp_all
  then show ?thesis using None by (simp add: on_ping_def raise_at_def send_json_def)
next
  case (Some reason)
  then show ?thesis by (simp add: on_ping_def raise_at_def send_json_def frames_ok_refl)
qed

lemma frames_ok_dispatch: "frames_ok_result s w c (dispatch net s w c message)"
  by (cases message)
     (simp_all add: dispatch_def Let_def frames_ok_refl frames_ok_on_join_room
                    frames_ok_on_leave_room frames_ok_on_game_state frames_ok_on_ping)

lemma frames_ok_error_reply:
  assumes "frames_ok s w c t"
  shows "frames_ok s w c (state_of (case send_json net w (error_reply e) t of
            Inr t' \<Rightarrow> Continue t' | Inl e' \<Rightarrow> Closed (disconnect t c)))"
proof (cases "net w")
  case None
  have "frames_ok s w c (t\<lparr>wire := wire t @ [(w, error_reply e)]\<rparr>)"
    by (rule frames_ok_reply[OF assms, of "error_reply e"]) (simp_all add: error_reply_def)
  then show ?thesis using None by (simp add: send_json_def)
next
  case (Some reason)
  have "frames_ok s w c (disconnect t c)"
    by (rule frames_ok_same_wire[OF assms]) simp
  then show ?thesis using Some by (simp add: send_json_def)
qed

lemma frames_ok_on_text: "frames_ok s w c (state_of (on_text net s w c decoded))"
proof (cases decoded)
  case (Inl e)
  then show ?thesis
    using frames_ok_error_reply[OF frames_ok_refl, of s w c net e] by (simp add: on_text_def)
next
  case (Inr message)
  show ?thesis
  proof (cases "dispatch net s w c message")
    case (Inl x)
    obtain e t where x: "x = (e, t)" by (cases x)
    have "frames_ok s w c t" using frames_ok_dispatch[of s w c net message] Inl x by simp
    from frames_ok_error_reply[OF this, of net e]
    show ?thesis using Inl x Inr by (simp add: on_text_def)
  next
    case (Inr t)
    then show ?thesis
      using frames_ok_dispatch[of s w c net message] \<open>decoded = Inr message\<close>
      by (simp add: on_text_def)
  qed
qed

lemma no_echo:
  assumes "\<forall>c'. active_connections s c' = Some w \<longrightarrow> c' = c"
      and "(w, m) \<in> set (emitted s (state_of (on_text net s w c decoded)))"
  shows "message_type m \<in> {JStr ''room_joined'', JStr ''room_left'', JStr ''pong'', JStr ''error''}"
proof -
  obtain fs where fs: "wire (state_of (on_text net s w c decoded)) = wire s @ fs"
      "\<forall>fr\<in>set fs. reply_or_relay s w c fr"
    using frames_ok_on_text[of s w c net decoded] by (auto simp: frames_ok_def)
  then have "reply_or_relay s w c (w, m)" using assms(2) by auto
  then show ?thesis using assms(1) by (auto simp: reply_or_relay_def)
qed

subsection \<open>Relays and room ids\<close>

lemma float_key_falsy: "falsy_key (float_key f) = (f = Finite 0 \<or> f = NegZero)"
proof (cases f)
  case (Finite q)
  have "\<lfloor>q\<rfloor> = 0 \<Longrightarrow> of_int \<lfloor>q\<rfloor> = q \<Longrightarrow> q = 0" by simp
  then show ?thesis using Finite by (auto simp: falsy_key_def)
qed (simp_all add: falsy_key_def)

lemma truthy_key_of: "key_of r = Some k \<Longrightarrow> truthy r = (\<not> falsy_key k)"
proof (cases r)
  case (JFloat f)
  then show "key_of r = Some k \<Longrightarrow> ?thesis" using float_key_falsy[of f] by auto
qed (auto simp: falsy_key_def)

lemma moves_no_falsy_rooms:
  "moves s t \<Longrightarrow> \<forall>k. falsy_key k \<longrightarrow> rooms s k = None \<Longrightarrow> falsy_key k \<Longrightarrow> rooms t k = None"
proof (induction rule: moves.induct)
  case (moves_join s t c r t' p)
  then have "rooms t k = None" by simp
  moreover have "key_of r \<noteq> Some k"
    using moves_join.hyps(3) \<open>falsy_key k\<close> truthy_key_of[of r k] by auto
  ultimately show ?case using moves_join.hyps(2)
    by (auto simp: join_room_def split: option.splits)
next
  case (moves_leave s t c r t')
  then have "rooms t k = None" by simp
  then show ?case using moves_leave.hyps(2)
    by (auto simp: leave_room_def split: option.splits if_splits)
qed (simp_all add: disconnect_rooms)

lemma turn_no_falsy_rooms:
  assumes "\<forall>k. falsy_key k \<longrightarrow> rooms s k = None"
  shows "\<forall>k. falsy_key k \<longrightarrow> rooms (turn net s ev) k = None"
proof (cases ev)
  case (Open w c)
  then show ?thesis using assms open_endpoint_cases[of net s w c] by auto
next
  case (Turn w c fr)
  then show ?thesis
    using moves_no_falsy_rooms[OF moves_turn assms, of _ net w c fr] by simp
next
  case (Others plan)
  then show ?thesis using assms by simp
qed

lemma run_no_falsy_rooms:
  "\<forall>k. falsy_key k \<longrightarrow> rooms s k = None \<Longrightarrow> falsy_key k \<Longrightarrow> rooms (run s evs) k = None"
proof (induction s evs rule: run.induct)
  case (1 s)
  then show ?case by simp
next
  case (2 s net ev rest)
  then show ?case using turn_no_falsy_rooms[of s net ev] by simp
qed

lemma on_text_game_state:
  assumes "dict_get items ''type'' = JStr ''game_state''"
      and "truthy (dict_get items ''roomId'')" "key_of (dict_get items ''roomId'') = Some k"
      and "meanwhile s = []"
  shows "\<exists>s'. broadcast_to_room net s (JObj items) (dict_get items ''roomId'') (Some c) = Inr s'
            \<and> on_text net s w c (Inr (JObj items)) = Continue s'"
proof -
  obtain s' where s': "broadcast_to_room net s (JObj items) (dict_get items ''roomId'') (Some c) = Inr s'"
    using broadcast_returns[OF assms(3,4)] by blast
  then have "on_text net s w c (Inr (JObj items)) = Continue s'"
    using assms(1,2) by (simp add: on_text_def dispatch_def on_game_state_def)
  with s' show ?thesis by blast
qed

lemma on_text_leave_room_non_member:
  assumes "dict_get items ''type'' = JStr ''leave_room''"
      and "truthy (dict_get items ''roomId'')" "key_of (dict_get items ''roomId'') = Some k"
      and "\<not> in_room s c k" "net w = None" "meanwhile s = []"
  shows "on_text net s w c (Inr (JObj items)) =
           (let s2 = s\<lparr>wire := wire s @
                       [(w, JObj [(''type'', JStr ''room_left''), (''roomId'', dict_get items ''roomId'')])]\<rparr>
            in case connection_players s c of
                 None \<Rightarrow> Continue s2
               | Some p \<Rightarrow>
                   if truthy p
                   then (case broadcast_to_room net s2
                                (JObj [(''type'', JStr ''player_left''), (''playerId'', p),
                                       (''roomId'', dict_get items ''roomId'')])
                                (dict_get items ''roomId'') (Some c) of
                           Inr s3 \<Rightarrow> Continue s3
                         | Inl e \<Rightarrow> Continue s2)
                   else Continue s2)"
proof -
  have l: "leave_room s c (dict_get items ''roomId'') = Inr s"
    by (rule leave_room_non_member[OF assms(3,4)])
  show ?thesis
  proof (cases "connection_players s c")
    case None
    then show ?thesis using assms(1,2,5) l
      by (simp add: on_text_def dispatch_def on_leave_room_def Let_def raise_at_def and_then_def
                    send_json_def)
  next
    case (Some p)
    let ?s2 = "s\<lparr>wire := wire s @
                 [(w, JObj [(''type'', JStr ''room_left''), (''roomId'', dict_get items ''roomId'')])]\<rparr>"
    let ?m = "JObj [(''type'', JStr ''player_left''), (''playerId'', p),
                    (''roomId'', dict_get items ''roomId'')]"
    have "meanwhile ?s2 = []" using assms(6) by simp
    then obtain s3 where s3: "broadcast_to_room net ?s2 ?m (dict_get items ''roomId'') (Some c) = Inr s3"
      using broadcast_returns[OF assms(3)] by blast
    show ?thesis using assms(1,2,5) l Some s3
      by (simp add: on_text_def dispatch_def on_leave_room_def Let_def raise_at_def and_then_def
                    send_json_def)
  qed
qed

section \<open>Removing a connection\<close>

text \<open>
  Claim C5. \<^verbatim>\<open>disconnect\<close> is idempotent: for every connection id and every state,
  running it twice leaves the state that running it once leaves. It has no failing path
  (each \<^verbatim>\<open>del\<close> is guarded by its \<^verbatim>\<open>in\<close> test, \<^verbatim>\<open>discard\<close> never raises), so it is a
  total function on states. A removal leaves every other connection's registry entry,
  player record and room memberships as they were; the second removal, being the
  identity on the state the first one left, changes nothing at all.
\<close>

theorem disconnect_idempotent:
  "disconnect (disconnect s c) c = disconnect s c
   \<and> (\<forall>c'. c' \<noteq> c \<longrightarrow>
          active_connections (disconnect s c) c' = active_connections s c'
        \<and> connection_players (disconnect s c) c' = connection_players s c'
        \<and> (\<forall>k. in_room (disconnect s c) c' k = in_room s c' k))"
proof -
  have "disconnect (disconnect s c) c = disconnect s c"
    by (rule disconnect_absent) simp_all
  then show ?thesis by (simp add: disconnect_in_room)
qed

theorem disconnect_idempotent_witness:
  "disconnect (disconnect two_players ''a'') ''a'' = disconnect two_players ''a''
   \<and> ''b'' \<noteq> ''a''
   \<and> active_connections (disconnect two_players ''a'') ''b'' = Some 2
   \<and> connection_players (disconnect two_players ''a'') ''b'' = Some (JStr ''pb'')
   \<and> in_room (disconnect two_players ''a'') ''b'' (KStr ''r1'')
   \<and> \<not> in_room (disconnect two_players ''a'') ''a'' (KStr ''r1'')"
  using disconnect_idempotent [of two_players "''a''"]
  by (simp add: two_players_def in_room_def disconnect_rooms set_discard_def)

text \<open>
  Claim C1, as the code has it. After \<^verbatim>\<open>disconnect\<close> has run on a connection id, the id
  has no registry entry and no player record. The loop that takes the id out of the rooms
  stands under the test \<^verbatim>\<open>if connection_id in self.connection_players\<close>: the id is
  absent from every room's member set afterwards if it had a player id on record, and so
  in every state the endpoint can reach, where each member of a room has one (the
  \<^verbatim>\<open>join_room\<close> branch stores membership and player id together). The manager has no
  subscriber sets besides the rooms. It does not hold regardless of the state: an id that
  was put into a room by \<^verbatim>\<open>join_room\<close> alone stays in the room
  (\<open>disconnect_keeps_member_without_player\<close> below).
\<close>

theorem disconnect_purges_rooms:
  "active_connections (disconnect s c) c = None
   \<and> connection_players (disconnect s c) c = None
   \<and> (connection_players s c \<noteq> None \<longrightarrow> (\<forall>k. \<not> in_room (disconnect s c) c k))
   \<and> (\<forall>k. \<not> in_room (disconnect (run initial evs) c) c k)"
proof -
  have "members_have_players (run initial evs)"
    by (rule run_members_have_players[OF members_have_players_initial])
  then have "\<not> in_room (disconnect (run initial evs) c) c k" for k
    by (auto simp: disconnect_in_room members_have_players_def)
  then show ?thesis by (simp add: disconnect_in_room)
qed

theorem disconnect_purges_rooms_witness:
  "connection_players two_players ''a'' \<noteq> None
   \<and> in_room two_players ''a'' (KStr ''r1'')
   \<and> \<not> in_room (disconnect two_players ''a'') ''a'' (KStr ''r1'')
   \<and> active_connections (disconnect two_players ''a'') ''a'' = None
   \<and> in_room (run initial
        [(all_live, Open 1 ''a''),
         (all_live, Turn 1 ''a'' (Text (Inr (JObj [(''type'', JStr ''join_room''),
            (''roomId'', JStr ''r1''), (''playerId'', JStr ''pa'')]))))]) ''a'' (KStr ''r1'')
   \<and> \<not> in_room (disconnect (run initial
        [(all_live, Open 1 ''a''),
         (all_live, Turn 1 ''a'' (Text (Inr (JObj [(''type'', JStr ''join_room''),
            (''roomId'', JStr ''r1''), (''playerId'', JStr ''pa'')]))))]) ''a'') ''a'' (KStr ''r1'')"
  using disconnect_purges_rooms [of two_players "''a''"
        "[(all_live, Open 1 ''a''),
          (all_live, Turn 1 ''a'' (Text (Inr (JObj [(''type'', JStr ''join_room''),
            (''roomId'', JStr ''r1''), (''playerId'', JStr ''pa'')]))))]"]
  by (simp add: eval_defs)

text \<open>
  The claim as stated fails: connection \<open>c1\<close> is registered and joins room \<open>r1\<close> through
  the manager's \<^verbatim>\<open>join_room\<close>, with no player id recorded; after \<^verbatim>\<open>disconnect\<close> it is
  still a member of \<open>r1\<close>.
\<close>

theorem disconnect_keeps_member_without_player:
  "join_room (initial\<lparr>active_connections := [''c1'' \<mapsto> 1]\<rparr>) ''c1'' (JStr ''r1'')
     = Inr (initial\<lparr>active_connections := [''c1'' \<mapsto> 1], rooms := [KStr ''r1'' \<mapsto> [''c1'']]\<rparr>)
   \<and> in_room (disconnect
        (initial\<lparr>active_connections := [''c1'' \<mapsto> 1], rooms := [KStr ''r1'' \<mapsto> [''c1'']]\<rparr>)
        ''c1'') ''c1'' (KStr ''r1'')"
  by (simp add: eval_defs)

section \<open>Broadcasting\<close>

text \<open>
  Claim C4. A broadcast to a room id with no subscribers, be it a key the room map has
  never seen or a key whose member set is empty, returns normally and leaves the whole
  state as it was: registry, player records, room map and wire (nothing is delivered).
  The room id is one Python can look up in a dictionary (\<open>key_of room_id = Some k\<close>).
\<close>

theorem broadcast_to_empty_room_is_noop:
  "key_of room_id = Some k \<Longrightarrow> rooms s k = None \<or> rooms s k = Some [] \<Longrightarrow>
   broadcast_to_room net s message room_id exclude = Inr s"
  by (auto simp: broadcast_to_room_def members_of_def)

theorem broadcast_to_empty_room_is_noop_witness:
  "key_of (JStr ''r9'') = Some (KStr ''r9'')
   \<and> rooms (initial\<lparr>rooms := [KStr ''r1'' \<mapsto> []]\<rparr>) (KStr ''r9'') = None
   \<and> rooms (initial\<lparr>rooms := [KStr ''r1'' \<mapsto> []]\<rparr>) (KStr ''r1'') = Some []
   \<and> broadcast_to_room all_live (initial\<lparr>rooms := [KStr ''r1'' \<mapsto> []]\<rparr>)
        (JObj [(''type'', JStr ''game_state'')]) (JStr ''r9'') None
      = Inr (initial\<lparr>rooms := [KStr ''r1'' \<mapsto> []]\<rparr>)
   \<and> broadcast_to_room all_live (initial\<lparr>rooms := [KStr ''r1'' \<mapsto> []]\<rparr>)
        (JObj [(''type'', JStr ''game_state'')]) (JStr ''r1'') None
      = Inr (initial\<lparr>rooms := [KStr ''r1'' \<mapsto> []]\<rparr>)"
  using broadcast_to_empty_room_is_noop [of "JStr ''r9''" "KStr ''r9''"
          "initial\<lparr>rooms := [KStr ''r1'' \<mapsto> []]\<rparr>" all_live
          "JObj [(''type'', JStr ''game_state'')]" None]
        broadcast_to_empty_room_is_noop [of "JStr ''r1''" "KStr ''r1''"
          "initial\<lparr>rooms := [KStr ''r1'' \<mapsto> []]\<rparr>" all_live
          "JObj [(''type'', JStr ''game_state'')]" None]
  by (simp add: initial_def)

text \<open>
  Claim C2. A broadcast in which the send to one recipient raises a transport error
  should reach every other live member, return normally and remove the failed
  connection. The loop does this as long as no other task changes the room's member set
  while one of its sends is awaited (\<open>broadcast_survives_send_failure_undisturbed\<close>
  below). It iterates over the live set, though, and not over a copy: when another
  connection joins the room during a suspension, the next step of the iterator raises
  \<^verbatim>\<open>RuntimeError\<close>, which the \<^verbatim>\<open>try\<close> around the send does not catch. In
  \<open>room_changes_mid_broadcast\<close> the send to \<open>b\<close> fails and is caught, the send to \<open>a\<close>
  goes out, \<open>z\<close> joins, and the broadcast ends there: \<open>d\<close>, a live member, gets nothing,
  the exception reaches the caller (which, in the endpoint, reports it to the sender as
  an \<open>error\<close> message), and the cleanup is skipped, so \<open>b\<close> stays registered and in the
  room.
\<close>

theorem broadcast_aborts_when_room_changes:
  "broadcast_to_room only_2_fails room_changes_mid_broadcast
       (JObj [(''type'', JStr ''tick'')]) (JStr ''r1'') None
     = Inl (Raised ''Set changed size during iteration'',
            \<lparr>active_connections = [''a'' \<mapsto> 1, ''b'' \<mapsto> 2, ''d'' \<mapsto> 4],
             connection_players = [''a'' \<mapsto> JStr ''pa'', ''b'' \<mapsto> JStr ''pb'',
                                   ''d'' \<mapsto> JStr ''pd'', ''z'' \<mapsto> JStr ''pz''],
             rooms = [KStr ''r1'' \<mapsto> [''b'', ''a'', ''d'', ''z'']],
             wire = [(1, JObj [(''type'', JStr ''tick'')])],
             meanwhile = []\<rparr>)
   \<and> only_2_fails 4 = None
   \<and> emitted room_changes_mid_broadcast
         (state_of (on_text only_2_fails room_changes_mid_broadcast 9 ''x''
            (Inr (JObj [(''type'', JStr ''game_state''), (''roomId'', JStr ''r1'')]))))
     = [(1, JObj [(''type'', JStr ''game_state''), (''roomId'', JStr ''r1'')]),
        (9, JObj [(''type'', JStr ''error''),
                  (''message'', JStr ''Set changed size during iteration'')])]"
  by (simp add: eval_defs room_changes_mid_broadcast_def only_2_fails_def)

lemma broadcast_survives_send_failure_undisturbed:
  assumes "key_of room_id = Some k" "rooms s k = Some members" "meanwhile s = []"
      and "failed \<in> set members" "Some failed \<noteq> exclude"
      and "active_connections s failed = Some w" "net w = Some reason"
  shows "\<exists>s'. broadcast_to_room net s message room_id exclude = Inr s'
     \<and> (\<forall>c w'. c \<in> set members \<and> Some c \<noteq> exclude \<and> active_connections s c = Some w'
                \<and> net w' = None \<longrightarrow> (w', message) \<in> set (emitted s s'))
     \<and> active_connections s' failed = None
     \<and> (connection_players s failed \<noteq> None \<longrightarrow> (\<forall>k'. \<not> in_room s' failed k'))"
proof -
  obtain s' where s': "broadcast_to_room net s message room_id exclude = Inr s'"
    using broadcast_returns[OF assms(1,3)] by blast
  have member: "in_room s failed k"
    using assms(2,4) by (simp add: in_room_def)
  have live: "(w', message) \<in> set (emitted s s')"
    if "c \<in> set members" "Some c \<noteq> exclude" "active_connections s c = Some w'" "net w' = None"
    for c w'
    using that assms(1,2) by (auto simp: broadcast_emitted[OF s' assms(3)] in_room_def)
  have gone: "active_connections s' failed = None"
    using broadcast_drops_failed(1)[OF s' assms(3,1) member assms(5,6)] assms(7) by simp
  have left: "\<not> in_room s' failed k'" if "connection_players s failed \<noteq> None" for k'
    using broadcast_drops_failed(2)[OF s' assms(3,1) member assms(5,6) _ that] assms(7) by simp
  show ?thesis
    using s' live gone left by blast
qed

section \<open>Room membership\<close>

text \<open>
  Claim C6. For every connection id and every room id that Python can use as a dictionary
  key, \<^verbatim>\<open>join_room\<close> is an idempotent add (a second join returns the state the first
  one left, with the connection in the room) and \<^verbatim>\<open>leave_room\<close> is an idempotent remove
  (a second leave returns the state the first one left, with the connection out of the
  room); leaving a room one is not in returns the state unchanged and raises nothing.
  After any sequence of such calls, on any pairs, the membership of a pair is what the
  last call for that pair says, and the initial membership when no call names it.
\<close>

theorem join_leave_idempotent:
  assumes "key_of room_id = Some k"
  shows "(\<exists>s1. join_room s c room_id = Inr s1 \<and> join_room s1 c room_id = Inr s1 \<and> in_room s1 c k)
       \<and> (\<exists>s2. leave_room s c room_id = Inr s2 \<and> leave_room s2 c room_id = Inr s2 \<and> \<not> in_room s2 c k)
       \<and> (\<not> in_room s c k \<longrightarrow> leave_room s c room_id = Inr s)
       \<and> ((\<forall>x\<in>set calls. key_of (call_room x) \<noteq> None) \<longrightarrow>
            (\<exists>s'. apply_calls s calls = Inr s'
                 \<and> in_room s' c k = (case last_call c k calls of None \<Rightarrow> in_room s c k | Some b \<Rightarrow> b)))"
proof (intro conjI impI)
  obtain s1 where s1: "join_room s c room_id = Inr s1"
    by (simp add: join_room_eq[OF assms])
  show "\<exists>s1. join_room s c room_id = Inr s1 \<and> join_room s1 c room_id = Inr s1 \<and> in_room s1 c k"
    using s1 join_room_twice[OF s1] join_room_in_room[OF s1, of c k] assms by simp
next
  obtain s2 where s2: "leave_room s c room_id = Inr s2"
    by (simp add: leave_room_eq[OF assms])
  show "\<exists>s2. leave_room s c room_id = Inr s2 \<and> leave_room s2 c room_id = Inr s2 \<and> \<not> in_room s2 c k"
    using s2 leave_room_twice[OF s2] leave_room_in_room[OF s2, of c k] assms by simp
next
  assume "\<not> in_room s c k"
  then show "leave_room s c room_id = Inr s" by (rule leave_room_non_member[OF assms])
next
  assume "\<forall>x\<in>set calls. key_of (call_room x) \<noteq> None"
  then obtain s' where "apply_calls s calls = Inr s'"
    using apply_calls_returns by blast
  then show "\<exists>s'. apply_calls s calls = Inr s'
     \<and> in_room s' c k = (case last_call c k calls of None \<Rightarrow> in_room s c k | Some b \<Rightarrow> b)"
    using apply_calls_in_room by blast
qed

theorem join_leave_idempotent_witness:
  "key_of (JStr ''r1'') = Some (KStr ''r1'')
   \<and> join_room initial ''a'' (JStr ''r1'') = Inr (initial\<lparr>rooms := [KStr ''r1'' \<mapsto> [''a'']]\<rparr>)
   \<and> join_room (initial\<lparr>rooms := [KStr ''r1'' \<mapsto> [''a'']]\<rparr>) ''a'' (JStr ''r1'')
        = Inr (initial\<lparr>rooms := [KStr ''r1'' \<mapsto> [''a'']]\<rparr>)
   \<and> leave_room initial ''a'' (JStr ''r1'') = Inr initial
   \<and> last_call ''a'' (KStr ''r1'')
        [Join ''a'' (JStr ''r1''), Leave ''a'' (JStr ''r1''), Join ''b'' (JStr ''r1''),
         Join ''a'' (JStr ''r1''), Leave ''b'' (JStr ''r1'')] = Some True
   \<and> (\<exists>s'. apply_calls initial
        [Join ''a'' (JStr ''r1''), Leave ''a'' (JStr ''r1''), Join ''b'' (JStr ''r1''),
         Join ''a'' (JStr ''r1''), Leave ''b'' (JStr ''r1'')] = Inr s'
        \<and> in_room s' ''a'' (KStr ''r1''))"
  using join_leave_idempotent [of "JStr ''r1''" "KStr ''r1''" initial "''a''"
          "[Join ''a'' (JStr ''r1''), Leave ''a'' (JStr ''r1''), Join ''b'' (JStr ''r1''),
            Join ''a'' (JStr ''r1''), Leave ''b'' (JStr ''r1'')]"]
  by (simp add: join_room_def leave_room_def initial_def set_add_def in_room_def)

section \<open>The room map only grows\<close>

text \<open>
  Claim C9. A room map entry is created by the first \<^verbatim>\<open>join_room\<close> for its key, with the
  joining connection as its only member, and no operation removes an entry: the key stays
  over every run of the endpoint (joins, leaves, closed connections, relays) and over
  every call of \<^verbatim>\<open>disconnect\<close>, \<^verbatim>\<open>leave_room\<close>, \<^verbatim>\<open>join_room\<close> and
  \<^verbatim>\<open>broadcast_to_room\<close>; once no connection is in the room, the key is still there
  with the empty member set.
\<close>

theorem rooms_created_never_destroyed:
  "(key_of room_id = Some k \<longrightarrow> rooms s k = None \<longrightarrow>
      (\<exists>s'. join_room s c room_id = Inr s' \<and> rooms s' k = Some [c]))
   \<and> (rooms s k \<noteq> None \<longrightarrow>
        rooms (run s evs) k \<noteq> None
      \<and> ((\<forall>c'. \<not> in_room (run s evs) c' k) \<longrightarrow> rooms (run s evs) k = Some [])
      \<and> rooms (disconnect s c) k \<noteq> None
      \<and> (\<forall>r s'. leave_room s c r = Inr s' \<longrightarrow> rooms s' k \<noteq> None)
      \<and> (\<forall>r s'. join_room s c r = Inr s' \<longrightarrow> rooms s' k \<noteq> None)
      \<and> (\<forall>net message r exclude s'.
            broadcast_to_room net s message r exclude = Inr s' \<longrightarrow> rooms s' k \<noteq> None))"
proof (intro conjI impI allI)
  assume "key_of room_id = Some k" "rooms s k = None"
  then show "\<exists>s'. join_room s c room_id = Inr s' \<and> rooms s' k = Some [c]"
    by (simp add: join_room_eq set_add_def)
next
  assume "rooms s k \<noteq> None"
  then show "rooms (run s evs) k \<noteq> None" by (rule run_keeps_key)
next
  assume "rooms s k \<noteq> None" and nobody: "\<forall>c'. \<not> in_room (run s evs) c' k"
  then obtain ms where ms: "rooms (run s evs) k = Some ms"
    using run_keeps_key[of s k evs] by auto
  with nobody have "\<forall>c'. c' \<notin> set ms" by (simp add: in_room_def)
  then have "ms = []" by (cases ms) auto
  with ms show "rooms (run s evs) k = Some []" by simp
next
  assume "rooms s k \<noteq> None"
  then show "rooms (disconnect s c) k \<noteq> None" by (rule disconnect_keeps_key)
next
  fix r s' assume "rooms s k \<noteq> None" "leave_room s c r = Inr s'"
  then show "rooms s' k \<noteq> None" by (blast dest: leave_room_keeps_key)
next
  fix r s' assume "rooms s k \<noteq> None" "join_room s c r = Inr s'"
  then show "rooms s' k \<noteq> None" by (blast dest: join_room_keeps_key)
next
  fix net message r exclude s'
  assume "rooms s k \<noteq> None" "broadcast_to_room net s message r exclude = Inr s'"
  then show "rooms s' k \<noteq> None" by (blast dest: broadcast_keeps_key)
qed

theorem rooms_created_never_destroyed_witness:
  "key_of (JStr ''r1'') = Some (KStr ''r1'')
   \<and> rooms initial (KStr ''r1'') = None
   \<and> join_room initial ''a'' (JStr ''r1'') = Inr (initial\<lparr>rooms := [KStr ''r1'' \<mapsto> [''a'']]\<rparr>)
   \<and> rooms two_players (KStr ''r1'') = Some [''a'', ''b'']
   \<and> rooms (run two_players
        [(all_live, Turn 1 ''a'' (Text (Inr (JObj [(''type'', JStr ''leave_room''),
            (''roomId'', JStr ''r1'')])))),
         (all_live, Turn 2 ''b'' Gone)]) (KStr ''r1'') = Some []
   \<and> rooms (disconnect two_players ''a'') (KStr ''r1'') = Some [''b'']"
  using rooms_created_never_destroyed [of "JStr ''r1''" "KStr ''r1''" initial "''a''"]
        rooms_created_never_destroyed [of "JStr ''r1''" "KStr ''r1''" two_players "''a''"
          "[(all_live, Turn 1 ''a'' (Text (Inr (JObj [(''type'', JStr ''leave_room''),
              (''roomId'', JStr ''r1'')])))),
            (all_live, Turn 2 ''b'' Gone)]"]
  by (simp add: eval_defs)

section \<open>Messages the endpoint does not act on\<close>

text \<open>
  Claim C8. When the body of an inbound message is not parseable as JSON
  (\<^verbatim>\<open>json.loads\<close> raises \<^verbatim>\<open>JSONDecodeError\<close>) and the sender's transport takes the
  reply, the endpoint sends the sender one message of type \<open>error\<close> with the message
  string \<open>Invalid JSON format\<close>, changes nothing else in the state (registry, player
  records and rooms are as before), and goes on with the next frame of the connection.
\<close>

theorem malformed_json_gets_error_reply:
  "net websocket = None \<Longrightarrow>
     on_text net s websocket connection_id (Inl JSONDecodeError)
       = Continue (s\<lparr>wire := wire s @
           [(websocket, JObj [(''type'', JStr ''error''),
                              (''message'', JStr ''Invalid JSON format'')])]\<rparr>)
   \<and> message_loop s websocket connection_id ((net, Text (Inl JSONDecodeError)) # rest)
       = message_loop (s\<lparr>wire := wire s @
           [(websocket, JObj [(''type'', JStr ''error''),
                              (''message'', JStr ''Invalid JSON format'')])]\<rparr>)
           websocket connection_id rest"
  by (simp add: on_text_def send_json_def error_reply_def)

theorem malformed_json_gets_error_reply_witness:
  "all_live 1 = None
   \<and> on_text all_live two_players 1 ''a'' (Inl JSONDecodeError)
       = Continue (two_players\<lparr>wire :=
           [(1, JObj [(''type'', JStr ''error''), (''message'', JStr ''Invalid JSON format'')])]\<rparr>)
   \<and> message_loop two_players 1 ''a''
         [(all_live, Text (Inl JSONDecodeError)),
          (all_live, Text (Inr (JObj [(''type'', JStr ''ping'')])))]
       = Continue (two_players\<lparr>wire :=
           [(1, JObj [(''type'', JStr ''error''), (''message'', JStr ''Invalid JSON format'')]),
            (1, JObj [(''type'', JStr ''pong'')])]\<rparr>)"
  using malformed_json_gets_error_reply [of all_live 1 two_players "''a''"
          "[(all_live, Text (Inr (JObj [(''type'', JStr ''ping'')])))]"]
  by (simp add: eval_defs)

text \<open>
  Claim C7, as the code has it. When an inbound message decodes to a JSON object whose
  \<open>type\<close> is none of \<open>join_room\<close>, \<open>leave_room\<close>, \<open>game_state\<close>, \<open>ping\<close> (or is missing),
  the endpoint changes nothing, sends nothing (whatever the transport does) and stays in
  its loop: a \<open>ping\<close> that follows on the same connection is answered with \<open>pong\<close>. A
  decoded value that is not an object (an array, a string, a number, a boolean,
  \<^verbatim>\<open>null\<close>) has no \<^verbatim>\<open>get\<close>: the \<^verbatim>\<open>AttributeError\<close> is caught by
  \<^verbatim>\<open>except Exception\<close>, the sender gets a message of type \<open>error\<close>, and the loop goes on.
\<close>

theorem unknown_type_is_ignored:
  assumes "dict_get items ''type'' \<notin>
             {JStr ''join_room'', JStr ''leave_room'', JStr ''game_state'', JStr ''ping''}"
  shows "on_text net s websocket connection_id (Inr (JObj items)) = Continue s
       \<and> (net' websocket = None \<longrightarrow>
            message_loop s websocket connection_id
              [(net, Text (Inr (JObj items))),
               (net', Text (Inr (JObj [(''type'', JStr ''ping'')])))]
            = Continue (s\<lparr>wire := wire s @ [(websocket, JObj [(''type'', JStr ''pong'')])]\<rparr>))
       \<and> (\<forall>v. (case v of JObj other \<Rightarrow> False | _ \<Rightarrow> True) \<longrightarrow> net websocket = None \<longrightarrow>
            on_text net s websocket connection_id (Inr v)
            = Continue (s\<lparr>wire := wire s @ [(websocket, error_reply (no_get v))]\<rparr>))"
proof -
  have 1: "on_text net s websocket connection_id (Inr (JObj items)) = Continue s"
    using assms by (simp add: on_text_def dispatch_def)
  have 2: "on_text net' s websocket connection_id (Inr (JObj [(''type'', JStr ''ping'')]))
             = Continue (s\<lparr>wire := wire s @ [(websocket, JObj [(''type'', JStr ''pong'')])]\<rparr>)"
    if "net' websocket = None"
    using that by (simp add: on_text_def dispatch_def dict_get_def on_ping_def raise_at_def send_json_def)
  have 3: "on_text net s websocket connection_id (Inr v)
            = Continue (s\<lparr>wire := wire s @ [(websocket, error_reply (no_get v))]\<rparr>)"
    if "case v of JObj other \<Rightarrow> False | _ \<Rightarrow> True" "net websocket = None" for v
    using that by (cases v) (simp_all add: on_text_def dispatch_def send_json_def)
  show ?thesis using 1 2 3 by simp
qed

theorem unknown_type_is_ignored_witness:
  "dict_get [(''type'', JStr ''frobnicate'')] ''type'' \<notin>
     {JStr ''join_room'', JStr ''leave_room'', JStr ''game_state'', JStr ''ping''}
   \<and> on_text all_live two_players 1 ''a'' (Inr (JObj [(''type'', JStr ''frobnicate'')]))
       = Continue two_players
   \<and> all_live 1 = None
   \<and> message_loop two_players 1 ''a''
        [(all_live, Text (Inr (JObj [(''type'', JStr ''frobnicate'')]))),
         (all_live, Text (Inr (JObj [(''type'', JStr ''ping'')])))]
       = Continue (two_players\<lparr>wire := [(1, JObj [(''type'', JStr ''pong'')])]\<rparr>)
   \<and> on_text all_live two_players 1 ''a'' (Inr (JObj [(''data'', JStr ''no type field'')]))
       = Continue two_players"
  using unknown_type_is_ignored [of "[(''type'', JStr ''frobnicate'')]" all_live two_players 1 "''a''" all_live]
        unknown_type_is_ignored [of "[(''data'', JStr ''no type field'')]" all_live two_players 1 "''a''" all_live]
  by (simp add: eval_defs)

text \<open>
  The claim as stated fails: the JSON document \<^verbatim>\<open>[]\<close> is well formed and has no \<open>type\<close>
  field, and the endpoint answers it with an error message.
\<close>

theorem json_array_gets_error_reply:
  "on_text all_live initial 1 ''c1'' (Inr (JArr []))
     = Continue (initial\<lparr>wire :=
         [(1, JObj [(''type'', JStr ''error''),
                    (''message'', JStr (quoted ''list'' @ '' object has no attribute '' @ quoted ''get''))])]\<rparr>)"
  by (simp add: eval_defs no_get_def)

section \<open>Relaying game state\<close>

text \<open>
  Claim C3, as the code has it. For every inbound \<open>game_state\<close> message that carries a
  \<open>roomId\<close> (a value that is true in Python and can be a dictionary key, with key \<open>k\<close>),
  in a turn during which no other task changes the state, the endpoint stays in its loop
  and relays the message itself, the dictionary it decoded with all its entries, to
  every member of room \<open>k\<close> other than the sender that has an entry in
  \<^verbatim>\<open>active_connections\<close> and whose transport is live; nothing else goes on the wire,
  and every frame goes to the handle registered for a member other than the sender. The
  loop tests \<^verbatim>\<open>if connection_id in self.active_connections\<close>: a member without a
  registry entry is passed over. The sender never gets an echo, whatever the other tasks
  do: when its websocket is registered for no other connection id, no turn of its loop,
  whatever the inbound message, puts a \<open>game_state\<close>, \<open>player_joined\<close> or \<open>player_left\<close>
  frame on its own websocket. Room ids that are false in Python (\<^verbatim>\<open>None\<close>, zero, the
  empty string), for which the relay is skipped, name no room in any state the server
  reaches.
\<close>

theorem game_state_relayed_verbatim:
  assumes "dict_get items ''type'' = JStr ''game_state''"
      and "truthy (dict_get items ''roomId'')" "key_of (dict_get items ''roomId'') = Some k"
  shows "(meanwhile s = [] \<longrightarrow>
          (\<exists>s'. on_text net s websocket connection_id (Inr (JObj items)) = Continue s'
             \<and> (\<forall>c w. in_room s c k \<and> c \<noteq> connection_id \<and> active_connections s c = Some w
                       \<and> net w = None
                       \<longrightarrow> (w, JObj items) \<in> set (emitted s s'))
             \<and> (\<forall>w m. (w, m) \<in> set (emitted s s')
                       \<longrightarrow> m = JObj items
                           \<and> (\<exists>c. in_room s c k \<and> c \<noteq> connection_id
                                   \<and> active_connections s c = Some w))))
       \<and> ((\<forall>c. active_connections s c = Some websocket \<longrightarrow> c = connection_id)
            \<longrightarrow> (\<forall>decoded m.
                   (websocket, m) \<in> set (emitted s (state_of (on_text net s websocket connection_id decoded)))
                   \<longrightarrow> message_type m \<notin> {JStr ''game_state'', JStr ''player_joined'', JStr ''player_left''}))
       \<and> (\<forall>evs r k'. \<not> truthy r \<and> key_of r = Some k' \<longrightarrow> rooms (run initial evs) k' = None)"
proof (intro conjI impI)
  assume quiet: "meanwhile s = []"
  obtain s' where b: "broadcast_to_room net s (JObj items) (dict_get items ''roomId'') (Some connection_id) = Inr s'"
      and t: "on_text net s websocket connection_id (Inr (JObj items)) = Continue s'"
    using on_text_game_state[OF assms quiet] by blast
  have 1: "(w, JObj items) \<in> set (emitted s s')"
    if "in_room s c k" "c \<noteq> connection_id" "active_connections s c = Some w" "net w = None" for c w
    using that assms(3) by (auto simp: broadcast_emitted[OF b quiet])
  have 2: "m = JObj items \<and> (\<exists>c. in_room s c k \<and> c \<noteq> connection_id \<and> active_connections s c = Some w)"
    if "(w, m) \<in> set (emitted s s')" for w m
    using that assms(3) by (auto simp: broadcast_emitted[OF b quiet])
  show "\<exists>s'. on_text net s websocket connection_id (Inr (JObj items)) = Continue s'
             \<and> (\<forall>c w. in_room s c k \<and> c \<noteq> connection_id \<and> active_connections s c = Some w
                       \<and> net w = None
                       \<longrightarrow> (w, JObj items) \<in> set (emitted s s'))
             \<and> (\<forall>w m. (w, m) \<in> set (emitted s s')
                       \<longrightarrow> m = JObj items
                           \<and> (\<exists>c. in_room s c k \<and> c \<noteq> connection_id
                                   \<and> active_connections s c = Some w))"
    using t 1 2 by blast
next
  assume own: "\<forall>c. active_connections s c = Some websocket \<longrightarrow> c = connection_id"
  show "\<forall>decoded m.
          (websocket, m) \<in> set (emitted s (state_of (on_text net s websocket connection_id decoded)))
          \<longrightarrow> message_type m \<notin> {JStr ''game_state'', JStr ''player_joined'', JStr ''player_left''}"
  proof (intro allI impI)
    fix decoded m
    assume "(websocket, m) \<in> set (emitted s (state_of (on_text net s websocket connection_id decoded)))"
    from no_echo[OF own this]
    show "message_type m \<notin> {JStr ''game_state'', JStr ''player_joined'', JStr ''player_left''}"
      by auto
  qed
next
  show "\<forall>evs r k'. \<not> truthy r \<and> key_of r = Some k' \<longrightarrow> rooms (run initial evs) k' = None"
  proof (intro allI impI)
    fix evs r k'
    assume a: "\<not> truthy r \<and> key_of r = Some k'"
    show "rooms (run initial evs) k' = None"
    proof (rule run_no_falsy_rooms)
      show "\<forall>k. falsy_key k \<longrightarrow> rooms initial k = None" by (simp add: initial_def)
      show "falsy_key k'" using a truthy_key_of[of r k'] by simp
    qed
  qed
qed

theorem game_state_relayed_verbatim_witness:
  "dict_get [(''type'', JStr ''game_state''), (''roomId'', JStr ''r1''),
             (''x'', JFloat (Finite (3 / 2)))] ''type''
     = JStr ''game_state''
   \<and> truthy (dict_get [(''type'', JStr ''game_state''), (''roomId'', JStr ''r1''),
                       (''x'', JFloat (Finite (3 / 2)))] ''roomId'')
   \<and> key_of (dict_get [(''type'', JStr ''game_state''), (''roomId'', JStr ''r1''),
                       (''x'', JFloat (Finite (3 / 2)))] ''roomId'')
       = Some (KStr ''r1'')
   \<and> meanwhile two_players = []
   \<and> in_room two_players ''b'' (KStr ''r1'')
   \<and> active_connections two_players ''b'' = Some 2
   \<and> on_text all_live two_players 1 ''a''
        (Inr (JObj [(''type'', JStr ''game_state''), (''roomId'', JStr ''r1''),
                    (''x'', JFloat (Finite (3 / 2)))]))
       = Continue (two_players\<lparr>wire :=
           [(2, JObj [(''type'', JStr ''game_state''), (''roomId'', JStr ''r1''),
                      (''x'', JFloat (Finite (3 / 2)))])]\<rparr>)
   \<and> emitted two_players (state_of (on_text all_live two_players 1 ''a''
        (Inr (JObj [(''type'', JStr ''join_room''), (''roomId'', JStr ''r1''), (''playerId'', JStr ''pa'')]))))
       = [(1, JObj [(''type'', JStr ''room_joined''), (''roomId'', JStr ''r1'')]),
          (2, JObj [(''type'', JStr ''player_joined''), (''playerId'', JStr ''pa''), (''roomId'', JStr ''r1'')])]"
  using game_state_relayed_verbatim
          [of "[(''type'', JStr ''game_state''), (''roomId'', JStr ''r1''),
                (''x'', JFloat (Finite (3 / 2)))]"
              "KStr ''r1''" two_players all_live 1 "''a''"]
  by (simp add: eval_defs)

text \<open>
  The claim as stated fails: after \<open>rejoin_after_drop\<close> connection \<open>b\<close> is a member of
  room \<open>r1\<close> and its transport is live (the last turn put the \<open>room_joined\<close> of its
  second join on its handle), but it has no registry entry; a \<open>game_state\<close> of \<open>a\<close> for \<open>r1\<close> is
  relayed to nobody.
\<close>

theorem unregistered_member_gets_no_relay:
  "in_room (run initial rejoin_after_drop) ''b'' (KStr ''r1'')
   \<and> active_connections (run initial rejoin_after_drop) ''b'' = None
   \<and> all_live 2 = None
   \<and> drop 5 (wire (run initial rejoin_after_drop))
       = [(2, JObj [(''type'', JStr ''room_joined''), (''roomId'', JStr ''r1'')]),
          (1, JObj [(''type'', JStr ''player_joined''), (''playerId'', JStr ''pb''),
                    (''roomId'', JStr ''r1'')])]
   \<and> meanwhile (run initial rejoin_after_drop) = []
   \<and> on_text all_live (run initial rejoin_after_drop) 1 ''a''
        (Inr (JObj [(''type'', JStr ''game_state''), (''roomId'', JStr ''r1'')]))
       = Continue (run initial rejoin_after_drop)"
  by (simp add: eval_defs rejoin_after_drop_def only_2_fails_def)

text \<open>
  Claim C10, as the code has it. No membership is checked. In a turn during which no
  other task changes the state, a connection that is not in room \<open>k\<close> and sends a
  \<open>game_state\<close> message naming it has the message relayed to every member of the room
  that has an entry in \<^verbatim>\<open>active_connections\<close> and a live transport. When it sends
  \<open>leave_room\<close> for that room, it is answered \<open>room_left\<close> (its own transport being live)
  and, if it has a player id on record, \<open>player_left\<close> with that player id goes to every
  such member of the room. Members without a registry entry are passed over by the test
  \<^verbatim>\<open>if connection_id in self.active_connections\<close>.
\<close>

theorem non_member_can_inject:
  assumes "truthy (dict_get items ''roomId'')" "key_of (dict_get items ''roomId'') = Some k"
      and "\<not> in_room s connection_id k" "meanwhile s = []"
  shows "(dict_get items ''type'' = JStr ''game_state'' \<longrightarrow>
           (\<exists>s'. on_text net s websocket connection_id (Inr (JObj items)) = Continue s'
              \<and> (\<forall>c w. in_room s c k \<and> active_connections s c = Some w \<and> net w = None
                        \<longrightarrow> (w, JObj items) \<in> set (emitted s s'))))
       \<and> (dict_get items ''type'' = JStr ''leave_room'' \<and> net websocket = None \<longrightarrow>
           (\<exists>s'. on_text net s websocket connection_id (Inr (JObj items)) = Continue s'
              \<and> (websocket, JObj [(''type'', JStr ''room_left''),
                                  (''roomId'', dict_get items ''roomId'')]) \<in> set (emitted s s')
              \<and> (\<forall>p c w. connection_players s connection_id = Some p \<and> truthy p
                          \<and> in_room s c k \<and> active_connections s c = Some w \<and> net w = None
                          \<longrightarrow> (w, JObj [(''type'', JStr ''player_left''), (''playerId'', p),
                                         (''roomId'', dict_get items ''roomId'')])
                              \<in> set (emitted s s'))))"
proof (intro conjI impI)
  assume ty: "dict_get items ''type'' = JStr ''game_state''"
  obtain s' where b: "broadcast_to_room net s (JObj items) (dict_get items ''roomId'') (Some connection_id) = Inr s'"
      and t: "on_text net s websocket connection_id (Inr (JObj items)) = Continue s'"
    using on_text_game_state[OF ty assms(1,2,4)] by blast
  have "(w, JObj items) \<in> set (emitted s s')"
    if "in_room s c k" "active_connections s c = Some w" "net w = None" for c w
  proof -
    have "c \<noteq> connection_id" using that(1) assms(3) by auto
    then show ?thesis using that assms(2) by (auto simp: broadcast_emitted[OF b assms(4)])
  qed
  with t show "\<exists>s'. on_text net s websocket connection_id (Inr (JObj items)) = Continue s'
              \<and> (\<forall>c w. in_room s c k \<and> active_connections s c = Some w \<and> net w = None
                        \<longrightarrow> (w, JObj items) \<in> set (emitted s s'))"
    by blast
next
  assume "dict_get items ''type'' = JStr ''leave_room'' \<and> net websocket = None"
  then have ty: "dict_get items ''type'' = JStr ''leave_room''" and live: "net websocket = None"
    by simp_all
  let ?r = "dict_get items ''roomId''"
  let ?left = "JObj [(''type'', JStr ''room_left''), (''roomId'', ?r)]"
  let ?s2 = "s\<lparr>wire := wire s @ [(websocket, ?left)]\<rparr>"
  have quiet2: "meanwhile ?s2 = []" using assms(4) by simp
  note eq = on_text_leave_room_non_member[where net=net and w=websocket,
              OF ty assms(1,2,3) live assms(4)]
  show "\<exists>s'. on_text net s websocket connection_id (Inr (JObj items)) = Continue s'
              \<and> (websocket, ?left) \<in> set (emitted s s')
              \<and> (\<forall>p c w. connection_players s connection_id = Some p \<and> truthy p
                          \<and> in_room s c k \<and> active_connections s c = Some w \<and> net w = None
                          \<longrightarrow> (w, JObj [(''type'', JStr ''player_left''), (''playerId'', p), (''roomId'', ?r)])
                              \<in> set (emitted s s'))"
  proof (cases "connection_players s connection_id")
    case None
    then show ?thesis using eq by (simp add: Let_def)
  next
    case (Some p)
    show ?thesis
    proof (cases "truthy p")
      case False
      then show ?thesis using eq Some by (simp add: Let_def)
    next
      case True
      let ?m = "JObj [(''type'', JStr ''player_left''), (''playerId'', p), (''roomId'', ?r)]"
      obtain s3 where s3: "broadcast_to_room net ?s2 ?m ?r (Some connection_id) = Inr s3"
        using broadcast_returns[OF assms(2) quiet2] by blast
      then obtain fs where fs: "wire s3 = wire ?s2 @ fs"
        using broadcast_wire_extends[OF _ quiet2] by blast
      have t: "on_text net s websocket connection_id (Inr (JObj items)) = Continue s3"
        using eq Some True s3 by (simp add: Let_def)
      have e: "emitted s s3 = (websocket, ?left) # fs" "emitted ?s2 s3 = fs"
        using fs by (simp_all add: emitted_def)
      have "(w, ?m) \<in> set fs"
        if "in_room s c k" "active_connections s c = Some w" "net w = None" for c w
      proof -
        have "c \<noteq> connection_id" using that(1) assms(3) by auto
        then have "(w, ?m) \<in> set (emitted ?s2 s3)"
          using that assms(2) by (auto simp: broadcast_emitted[OF s3 quiet2])
        then show ?thesis by (simp add: e)
      qed
      then show ?thesis using t e Some by auto
    qed
  qed
qed

theorem non_member_can_inject_witness:
  "truthy (dict_get [(''type'', JStr ''game_state''), (''roomId'', JStr ''r1'')] ''roomId'')
   \<and> key_of (dict_get [(''type'', JStr ''game_state''), (''roomId'', JStr ''r1'')] ''roomId'')
        = Some (KStr ''r1'')
   \<and> \<not> in_room with_outsider ''z'' (KStr ''r1'')
   \<and> meanwhile with_outsider = []
   \<and> on_text all_live with_outsider 3 ''z''
        (Inr (JObj [(''type'', JStr ''game_state''), (''roomId'', JStr ''r1'')]))
       = Continue (with_outsider\<lparr>wire :=
           [(1, JObj [(''type'', JStr ''game_state''), (''roomId'', JStr ''r1'')]),
            (2, JObj [(''type'', JStr ''game_state''), (''roomId'', JStr ''r1'')])]\<rparr>)
   \<and> all_live 3 = None
   \<and> on_text all_live with_outsider 3 ''z''
        (Inr (JObj [(''type'', JStr ''leave_room''), (''roomId'', JStr ''r1'')]))
       = Continue (with_outsider\<lparr>wire :=
           [(3, JObj [(''type'', JStr ''room_left''), (''roomId'', JStr ''r1'')]),
            (1, JObj [(''type'', JStr ''player_left''), (''playerId'', JStr ''pz''),
                      (''roomId'', JStr ''r1'')]),
            (2, JObj [(''type'', JStr ''player_left''), (''playerId'', JStr ''pz''),
                      (''roomId'', JStr ''r1'')])]\<rparr>)"
  using non_member_can_inject
          [of "[(''type'', JStr ''game_state''), (''roomId'', JStr ''r1'')]" "KStr ''r1''"
              with_outsider "''z''" all_live 3]
        non_member_can_inject
          [of "[(''type'', JStr ''leave_room''), (''roomId'', JStr ''r1'')]" "KStr ''r1''"
              with_outsider "''z''" all_live 3]
  by (simp add: eval_defs with_outsider_def)

text \<open>
  The claim as stated fails: after \<open>rejoin_after_drop\<close> and the connect of \<open>z\<close>, which
  joins no room, a \<open>game_state\<close> of \<open>z\<close> for room \<open>r1\<close> reaches \<open>a\<close> only; \<open>b\<close>, a member
  of \<open>r1\<close> whose transport is live, has no registry entry and gets nothing.
\<close>

theorem outsider_relay_misses_unregistered_member:
  "in_room (run initial (rejoin_after_drop @ [(all_live, Open 3 ''z'')])) ''b'' (KStr ''r1'')
   \<and> \<not> in_room (run initial (rejoin_after_drop @ [(all_live, Open 3 ''z'')])) ''z'' (KStr ''r1'')
   \<and> all_live 2 = None
   \<and> meanwhile (run initial (rejoin_after_drop @ [(all_live, Open 3 ''z'')])) = []
   \<and> emitted (run initial (rejoin_after_drop @ [(all_live, Open 3 ''z'')]))
        (state_of (on_text all_live (run initial (rejoin_after_drop @ [(all_live, Open 3 ''z'')]))
           3 ''z'' (Inr (JObj [(''type'', JStr ''game_state''), (''roomId'', JStr ''r1'')]))))
       = [(1, JObj [(''type'', JStr ''game_state''), (''roomId'', JStr ''r1'')])]"
  by (simp add: eval_defs rejoin_after_drop_def only_2_fails_def)

end
